theory Spec2Isabelle
  imports Main
begin

section \<open>Strings\<close>

text \<open>
  A JavaScript string is modelled as a \<^typ>\<open>string\<close>: the list of its code units, for
  the strings all of whose code units are below 256 (every data URL with a base64 payload
  is one). The helpers below are the string operations the service uses.
\<close>

text \<open>Whether \<open>p\<close> is a prefix of \<open>s\<close>: the test \<^verbatim>\<open>includes\<close> makes at every position.\<close>

fun startsWith :: "string \<Rightarrow> string \<Rightarrow> bool" where
  "startsWith s [] = True"
| "startsWith [] (p # ps) = False"
| "startsWith (c # cs) (p # ps) = (c = p \<and> startsWith cs ps)"

text \<open>\<^verbatim>\<open>s.includes(needle)\<close>: the needle occurs in \<open>s\<close> as a contiguous piece.\<close>

fun str_includes :: "string \<Rightarrow> string \<Rightarrow> bool" where
  "str_includes [] needle = (needle = [])"
| "str_includes (c # cs) needle = (startsWith (c # cs) needle \<or> str_includes cs needle)"

text \<open>Consuming a literal prefix: the rest of the string, or no match.\<close>

fun strip_prefix :: "string \<Rightarrow> string \<Rightarrow> string option" where
  "strip_prefix [] s = Some s"
| "strip_prefix (p # ps) [] = None"
| "strip_prefix (p # ps) (c # cs) = (if p = c then strip_prefix ps cs else None)"

text \<open>The class \<^verbatim>\<open>\w\<close> of a pattern without flags: ASCII letters, digits and the underscore.\<close>

definition is_word_char :: "char \<Rightarrow> bool" where
  "is_word_char c \<longleftrightarrow>
     c \<in> set ''abcdefghijklmnopqrstuvwxyzABCDEFGHIJKLMNOPQRSTUVWXYZ0123456789_''"

text \<open>
  The dot of a pattern without the \<^verbatim>\<open>s\<close> flag matches every code unit but a line
  terminator; below 256 these are line feed and carriage return.
\<close>

definition is_line_terminator :: "char \<Rightarrow> bool" where
  "is_line_terminator c \<longleftrightarrow> c = CHR 0x0A \<or> c = CHR 0x0D"

text \<open>
  White space and line terminators removed by \<^verbatim>\<open>trim()\<close>; below 256 these are tab,
  line feed, vertical tab, form feed, carriage return, space and the no-break space.
\<close>

definition is_trim_space :: "char \<Rightarrow> bool" where
  "is_trim_space c \<longleftrightarrow>
     c \<in> set [CHR 0x09, CHR 0x0A, CHR 0x0B, CHR 0x0C, CHR 0x0D, CHR 0x20, CHR 0xA0]"

definition trim :: "string \<Rightarrow> string" where
  "trim s = rev (dropWhile is_trim_space (rev (dropWhile is_trim_space s)))"

text \<open>A template literal renders an absent value as the text \<^verbatim>\<open>undefined\<close>.\<close>

fun tmpl :: "string option \<Rightarrow> string" where
  "tmpl None = ''undefined''"
| "tmpl (Some s) = s"


section \<open>Image codec\<close>

text \<open>
  The data URL written by \<^verbatim>\<open>processGeminiResponse\<close> (line 29):
  \<^verbatim>\<open>`data:${mimeType};base64,${data}`\<close>.
\<close>

definition encode :: "string \<Rightarrow> string \<Rightarrow> string" where
  "encode mimeType base64Data = ''data:'' @ mimeType @ '';base64,'' @ base64Data"

text \<open>
  The match every operation applies to an incoming data URL (lines 87, 123, 181, ...):
  \<^verbatim>\<open>dataUrl.match(/^data:(image\/\w+);base64,(.*)$/)\<close>. The result is the pair of the
  two capture groups, or \<open>None\<close> for JavaScript's \<^verbatim>\<open>null\<close>. The greedy \<^verbatim>\<open>\w+\<close> takes
  the longest run of word characters; the literal that follows starts with a semicolon,
  which is no word character, so no shorter run can match.
\<close>

definition decode :: "string \<Rightarrow> (string \<times> string) option" where
  "decode dataUrl =
     (case strip_prefix ''data:image/'' dataUrl of
        None \<Rightarrow> None
      | Some r \<Rightarrow>
          (let w = takeWhile is_word_char r in
           if w = [] then None
           else (case strip_prefix '';base64,'' (dropWhile is_word_char r) of
                   None \<Rightarrow> None
                 | Some d \<Rightarrow>
                     if list_ex is_line_terminator d then None
                     else Some (''image/'' @ w, d))))"

text \<open>
  The pattern read as a description of strings: \<^verbatim>\<open>data:\<close>, the media type
  \<^verbatim>\<open>image/\<close> and one or more word characters, \<^verbatim>\<open>;base64,\<close>, and a payload without line
  terminators up to the end of the string.
\<close>

definition matches_pattern :: "string \<Rightarrow> string \<Rightarrow> string \<Rightarrow> bool" where
  "matches_pattern dataUrl mimeType base64Data \<longleftrightarrow>
     (\<exists>w. w \<noteq> [] \<and> (\<forall>c \<in> set w. is_word_char c) \<and> mimeType = ''image/'' @ w \<and>
          dataUrl = ''data:'' @ mimeType @ '';base64,'' @ base64Data \<and>
          (\<forall>c \<in> set base64Data. \<not> is_line_terminator c))"


section \<open>Requests, responses and thrown values\<close>

text \<open>
  The SDK's types, as far as the service reads them. All fields are optional in the SDK's
  declarations. The field \<open>part_text\<close> is the part's \<^verbatim>\<open>text\<close>; \<open>response_text\<close> is the
  value of the response's getter \<^verbatim>\<open>text\<close>, which the SDK computes.
\<close>

record blob =
  mimeType :: "string option"
  data :: "string option"

record part =
  inlineData :: "blob option"
  part_text :: "string option"

record content =
  parts :: "part list option"

record candidate =
  content :: "content option"

record response =
  candidates :: "candidate list option"
  response_text :: "string option"

text \<open>
  A thrown value: an instance of \<^verbatim>\<open>Error\<close> with its message, or any other value, given by
  the string \<^verbatim>\<open>JSON.stringify\<close> makes of it (a \<^verbatim>\<open>string\<close> by its TypeScript declaration).
\<close>

datatype thrown = Error string | NonError string

text \<open>\<^verbatim>\<open>error instanceof Error ? error.message : JSON.stringify(error)\<close>\<close>

fun errorMessage :: "thrown \<Rightarrow> string" where
  "errorMessage (Error message) = message"
| "errorMessage (NonError json) = json"

text \<open>An image part and a text part, as the operations build them.\<close>

definition imagePart :: "string \<Rightarrow> string \<Rightarrow> part" where
  "imagePart m d = \<lparr>inlineData = Some \<lparr>mimeType = Some m, data = Some d\<rparr>, part_text = None\<rparr>"

definition textPart :: "string \<Rightarrow> part" where
  "textPart t = \<lparr>inlineData = None, part_text = Some t\<rparr>"


section \<open>Response resolver\<close>

text \<open>\<^verbatim>\<open>response.candidates?.[0]?.content?.parts\<close>\<close>

definition response_parts :: "response \<Rightarrow> part list option" where
  "response_parts r =
     (case candidates r of
        None \<Rightarrow> None
      | Some [] \<Rightarrow> None
      | Some (c # _) \<Rightarrow> (case content c of None \<Rightarrow> None | Some ct \<Rightarrow> parts ct))"

text \<open>\<^verbatim>\<open>textResponse || 'No text response received.'\<close>: the empty string is falsy too.\<close>

definition text_or_placeholder :: "string option \<Rightarrow> string" where
  "text_or_placeholder textResponse =
     (case textResponse of
        None \<Rightarrow> ''No text response received.''
      | Some t \<Rightarrow> if t = [] then ''No text response received.'' else t)"

definition no_image_error :: "response \<Rightarrow> thrown" where
  "no_image_error r =
     Error (''The AI model responded with text instead of an image: \"''
            @ text_or_placeholder (response_text r) @ ''\"'')"

definition processGeminiResponse :: "response \<Rightarrow> thrown + string" where
  "processGeminiResponse r =
     (let imagePartFromResponse =
            (case response_parts r of
               None \<Rightarrow> None
             | Some ps \<Rightarrow> find (\<lambda>p. inlineData p \<noteq> None) ps)
      in case imagePartFromResponse of
           None \<Rightarrow> Inl (no_image_error r)
         | Some p \<Rightarrow>
             (case inlineData p of
                None \<Rightarrow> Inl (no_image_error r)
              | Some b \<Rightarrow> Inr (encode (tmpl (mimeType b)) (tmpl (data b)))))"


section \<open>Retrying transport\<close>

text \<open>
  The remote endpoint is a parameter: \<open>ai n ps\<close> is the outcome of the invocation of
  \<^verbatim>\<open>ai.models.generateContent\<close> that is number \<open>n\<close> (from 0) overall and sends the parts
  \<open>ps\<close>: a thrown value or a response. A trace records what the service did: the requests
  sent, in order, and the delays waited, in milliseconds. Console output is left out.
\<close>

type_synonym endpoint = "nat \<Rightarrow> part list \<Rightarrow> thrown + response"

record trace =
  requests :: "part list list"
  delays :: "nat list"

definition maxRetries :: nat where
  "maxRetries = 3"

definition initialDelay :: nat where
  "initialDelay = 1000"

text \<open>
  \<^verbatim>\<open>errorMessage.includes('"code":500') || errorMessage.includes('INTERNAL')\<close>
\<close>

definition isInternalError :: "thrown \<Rightarrow> bool" where
  "isInternalError err \<longleftrightarrow>
     str_includes (errorMessage err) ''\"code\":500'' \<or> str_includes (errorMessage err) ''INTERNAL''"

text \<open>The loop of \<^verbatim>\<open>callImageModelWithRetry\<close> from the attempt \<open>attempt\<close> on.\<close>

function retry_loop :: "endpoint \<Rightarrow> part list \<Rightarrow> nat \<Rightarrow> trace \<Rightarrow> (thrown + response) \<times> trace" where
  "retry_loop ai ps attempt tr =
     (if attempt \<le> maxRetries then
        (let sent = tr\<lparr>requests := requests tr @ [ps]\<rparr> in
         case ai (length (requests tr)) ps of
           Inr r \<Rightarrow> (Inr r, sent)
         | Inl err \<Rightarrow>
             if isInternalError err \<and> attempt < maxRetries then
               (let delay = initialDelay * 2 ^ (attempt - 1) in
                retry_loop ai ps (attempt + 1) (sent\<lparr>delays := delays sent @ [delay]\<rparr>))
             else (Inl err, sent))
      else (Inl (Error ''Gemini API call failed after all retries.''), tr))"
  by pat_completeness auto
termination
  by (relation "measure (\<lambda>(ai, ps, attempt, tr). Suc maxRetries - attempt)") auto

declare retry_loop.simps [simp del]

definition callImageModelWithRetry :: "endpoint \<Rightarrow> part list \<Rightarrow> trace \<Rightarrow> (thrown + response) \<times> trace" where
  "callImageModelWithRetry ai ps tr = retry_loop ai ps 1 tr"


section \<open>Transformation operations\<close>

text \<open>
  The regeneration block every operation with a refinement text appends:
  \<^verbatim>\<open>if (additionalInstructions && additionalInstructions.trim() !== '')\<close>. An absent
  argument and the empty string are both falsy.
\<close>

definition regenerationHeader :: string where
  "regenerationHeader = ''\<newline>\<newline>**REGENERATION INSTRUCTIONS:**\<newline>''"

definition with_regeneration :: "string \<Rightarrow> string option \<Rightarrow> string" where
  "with_regeneration promptText additionalInstructions =
     (case additionalInstructions of
        None \<Rightarrow> promptText
      | Some a \<Rightarrow>
          if a \<noteq> [] \<and> trim a \<noteq> [] then promptText @ regenerationHeader @ a
          else promptText)"

text \<open>
  The \<^verbatim>\<open>try\<close> block that ends every operation: call the transport, resolve the response,
  and wrap whatever either throws in a new \<^verbatim>\<open>Error\<close> whose message starts with the
  operation's own text.
\<close>

definition request_cycle :: "endpoint \<Rightarrow> part list \<Rightarrow> string \<Rightarrow> trace \<Rightarrow> (thrown + string) \<times> trace" where
  "request_cycle ai allParts failureText tr =
     (case callImageModelWithRetry ai allParts tr of
        (Inl err, tr') \<Rightarrow> (Inl (Error (failureText @ errorMessage err)), tr')
      | (Inr response, tr') \<Rightarrow>
          (case processGeminiResponse response of
             Inl err \<Rightarrow> (Inl (Error (failureText @ errorMessage err)), tr')
           | Inr url \<Rightarrow> (Inr url, tr')))"

text \<open>The message thrown for a data URL that does not match (lines 89, 396).\<close>

definition invalidFormatMessage :: string where
  "invalidFormatMessage =
     ''Invalid image data URL format. Expected 'data:image/...;base64,...'' @ [CHR 0x27]"

text \<open>
  \<^verbatim>\<open>imageDataUrls.map(...)\<close> of \<^verbatim>\<open>generateStyledImage\<close>: the image parts, or \<open>None\<close>
  when the callback throws at some URL.
\<close>

fun decode_all :: "string list \<Rightarrow> part list option" where
  "decode_all [] = Some []"
| "decode_all (dataUrl # rest) =
     (case decode dataUrl of
        None \<Rightarrow> None
      | Some (m, d) \<Rightarrow>
          (case decode_all rest of
             None \<Rightarrow> None
           | Some imageParts \<Rightarrow> Some (imagePart m d # imageParts)))"

definition generateStyledImage :: "endpoint \<Rightarrow> string \<Rightarrow> string list \<Rightarrow> string option \<Rightarrow> trace \<Rightarrow> (thrown + string) \<times> trace" where
  "generateStyledImage ai prompt imageDataUrls additionalInstructions tr =
     (if length imageDataUrls = 0 then
        (Inl (Error ''At least one image data URL is required.''), tr)
      else
        (case decode_all imageDataUrls of
           None \<Rightarrow> (Inl (Error invalidFormatMessage), tr)
         | Some imageParts \<Rightarrow>
             (let finalPrompt = with_regeneration prompt additionalInstructions;
                  allParts = imageParts @ [textPart finalPrompt]
              in request_cycle ai allParts
                   ''The AI model failed to generate an image. Details: '' tr)))"

text \<open>
  The layout table of \<^verbatim>\<open>generatePhotoBoothImage\<close>, indexed with the count as the code
  receives it at run time: a count that is no key gives \<^verbatim>\<open>undefined\<close>.
\<close>

definition gridLayout :: "int \<Rightarrow> string option" where
  "gridLayout count =
     (if count = 4 then Some ''2x2''
      else if count = 6 then Some ''2x3''
      else if count = 8 then Some ''2x4''
      else if count = 9 then Some ''3x3''
      else if count = 12 then Some ''3x4''
      else None)"

definition photoBoothPromptHead :: string where
  "photoBoothPromptHead =
     ''\<newline>'' @
     ''**MISSION: Create a \"Purikura\" Style Photo Booth Collage**\<newline>'' @
     ''\<newline>'' @
     ''Your task is to create a single, cohesive image that looks like a photo strip or collage from a Japanese-style \"Purikura\" photo booth.\<newline>'' @
     ''\<newline>'' @
     ''**INPUT:**\<newline>'' @
     ''You will receive a single image of a person. This person is the subject for the entire collage.\<newline>'' @
     ''\<newline>'' @
     ''**CRITICAL REQUIREMENTS:**\<newline>'' @
     ''\<newline>'' @
     ''1.  **SINGLE IMAGE OUTPUT:** The final output MUST be a single image file containing a grid of photos.\<newline>'' @
     ''2.  **GRID LAYOUT:** Arrange the photos in a ''"

definition photoBoothPromptTail :: string where
  "photoBoothPromptTail =
     '' grid.\<newline>'' @
     ''3.  **IDENTITY PRESERVATION:** The person in EVERY photo within the grid must be the **exact same person** from the input image. Their identity, facial features, and general appearance must be perfectly consistent.\<newline>'' @
     ''4.  **POSE & EXPRESSION VARIETY:** Each photo in the grid must feature the person in a **different, cute, and playful pose or expression**. Think \"aegyo\" or \"kawaii\" styles:\<newline>'' @
     ''    - Winking, peace signs, finger hearts, puffed cheeks, surprised looks, joyful laughter, etc.\<newline>'' @
     ''5.  **AESTHETIC & DECORATION:** This is NOT a simple grid. You must apply a heavy \"Purikura\" aesthetic:\<newline>'' @
     ''    - **Doodles & Stickers:** Overlay the image with cute, hand-drawn-style doodles. Examples: sparkles, stars, hearts, rainbows, funny animals, etc.\<newline>'' @
     ''    - **Text:** Add short, cute, hand-written style text like \"Hi!\", \"LOOK!\", \"Hello\", \":)\", etc.\<newline>'' @
     ''    - **Background:** The overall background of the collage should be bright and cheerful, often a simple sky blue or a soft pastel color, consistent with the reference images provided by the user.\<newline>'' @
     ''    - **Cohesive Style:** The person's clothing and the immediate background within each small photo should be consistent with the original input image, but the overall collage is a new, decorated creation.\<newline>'' @
     ''6.  **FINAL IMAGE:** The result should be a fun, vibrant, and charming image that perfectly captures the playful spirit of a photo booth.\<newline>''"

definition generatePhotoBoothImage :: "endpoint \<Rightarrow> string \<Rightarrow> int \<Rightarrow> trace \<Rightarrow> (thrown + string) \<times> trace" where
  "generatePhotoBoothImage ai imageDataUrl count tr =
     (case decode imageDataUrl of
        None \<Rightarrow> (Inl (Error invalidFormatMessage), tr)
      | Some (m, d) \<Rightarrow>
          (let promptText = photoBoothPromptHead @ tmpl (gridLayout count) @ photoBoothPromptTail;
               allParts = [imagePart m d, textPart promptText]
           in request_cycle ai allParts
                ''The AI model failed to generate the photo booth image. Details: '' tr))"

definition faceSwapPromptText :: string where
  "faceSwapPromptText =
     ''\<newline>'' @
     ''**CRITICAL MISSION: Photorealistic Face Swap**\<newline>'' @
     ''\<newline>'' @
     ''You will be given two images.\<newline>'' @
     ''-   **Image 1 (Source Image):** This is the main image. It contains the person, body, pose, clothing, and background that MUST be preserved.\<newline>'' @
     ''-   **Image 2 (Face Source):** This image contains the face that you MUST transfer onto the person in Image 1.\<newline>'' @
     ''\<newline>'' @
     ''**UNBREAKABLE RULES:**\<newline>'' @
     ''1.  **Identity Transfer:** You must extract the face from Image 2 and perfectly blend it onto the person in Image 1. The final image must have the body/pose/clothing/background of Image 1, but the face from Image 2.\<newline>'' @
     ''2.  **Seamless Integration:** The swapped face must be seamlessly integrated. This means you must perfectly match the lighting, skin tone, shadows, perspective, and color grading of the original Source Image (Image 1).\<newline>'' @
     ''3.  **Preserve Everything Else:** Everything in Image 1 EXCEPT for the face must remain unchanged. This includes hair (as much as possible), clothing, background, and overall composition.\<newline>'' @
     ''4.  **No Watermarks/Artifacts:** The final output must be a clean, high-quality photograph with no visual artifacts.\<newline>''"

text \<open>The third parameter, \<^verbatim>\<open>_unused?: any\<close>, may hold a value of any type.\<close>

definition swapFacesInImage :: "endpoint \<Rightarrow> string \<Rightarrow> string \<Rightarrow> 'u option \<Rightarrow> string option \<Rightarrow> trace \<Rightarrow> (thrown + string) \<times> trace" where
  "swapFacesInImage ai sourceImageDataUrl targetFaceDataUrl unused additionalInstructions tr =
     (case decode sourceImageDataUrl of
        None \<Rightarrow> (Inl (Error ''Invalid source image data URL format.''), tr)
      | Some (sourceMimeType, sourceBase64Data) \<Rightarrow>
          (case decode targetFaceDataUrl of
             None \<Rightarrow> (Inl (Error ''Invalid face source data URL format.''), tr)
           | Some (faceMimeType, faceBase64Data) \<Rightarrow>
               (let promptText = with_regeneration faceSwapPromptText additionalInstructions;
                    allParts = [imagePart sourceMimeType sourceBase64Data,
                                imagePart faceMimeType faceBase64Data,
                                textPart promptText]
                in request_cycle ai allParts
                     ''The AI model failed to swap the face. Details: '' tr)))"


section \<open>Fan-out scheduler\<close>

text \<open>
  \<^verbatim>\<open>getPrompts\<close> of the profile picture generator: five prompt items with the identifiers
  \<^verbatim>\<open>prompt1\<close> to \<^verbatim>\<open>prompt5\<close>; the first three are shared, the last two depend on the
  gender. The prompt texts are long literals with code units above 255; they are taken as
  the parameter \<open>texts\<close>, by gender and number.
\<close>

datatype gender = male | female

record promptItem =
  item_id :: string
  prompt :: string

definition basePrompts :: "(gender \<Rightarrow> nat \<Rightarrow> string) \<Rightarrow> gender \<Rightarrow> promptItem list" where
  "basePrompts texts g =
     [\<lparr>item_id = ''prompt1'', prompt = texts g 1\<rparr>,
      \<lparr>item_id = ''prompt2'', prompt = texts g 2\<rparr>,
      \<lparr>item_id = ''prompt3'', prompt = texts g 3\<rparr>]"

definition getPrompts :: "(gender \<Rightarrow> nat \<Rightarrow> string) \<Rightarrow> gender \<Rightarrow> promptItem list" where
  "getPrompts texts g =
     basePrompts texts g @
     [\<lparr>item_id = ''prompt4'', prompt = texts g 4\<rparr>,
      \<lparr>item_id = ''prompt5'', prompt = texts g 5\<rparr>]"

text \<open>
  The type \<^verbatim>\<open>GeneratedImage\<close> and the state \<^verbatim>\<open>generatedImages\<close>, a record keyed by id.
  The statuses \<^verbatim>\<open>'pending'\<close>, \<^verbatim>\<open>'done'\<close> and \<^verbatim>\<open>'error'\<close> are \<open>Pending\<close>, \<open>Done\<close> and \<open>Failed\<close>;
  the fields \<^verbatim>\<open>id\<close> and \<^verbatim>\<open>error\<close> are \<open>image_id\<close> and \<open>error_text\<close>.
\<close>

datatype status = Pending | Done | Failed

record generatedImage =
  image_id :: string
  status :: status
  url :: "string option"
  error_text :: "string option"

type_synonym images = "string \<rightharpoonup> generatedImage"

text \<open>
  \<^verbatim>\<open>processSinglePrompt\<close>, as the state update it makes when its awaited call settles.
  The parameter \<open>generate\<close> is the settled outcome of
  \<^verbatim>\<open>generateStyledImage(promptItem.prompt, [image])\<close>.
\<close>

definition processSinglePrompt :: "(string \<Rightarrow> string list \<Rightarrow> thrown + string) \<Rightarrow> promptItem \<Rightarrow> string \<Rightarrow> images \<Rightarrow> images" where
  "processSinglePrompt generate promptItem resizedImage prev =
     (case generate (prompt promptItem) [resizedImage] of
        Inr resultUrl \<Rightarrow>
          prev(item_id promptItem \<mapsto>
            \<lparr>image_id = item_id promptItem, status = Done, url = Some resultUrl, error_text = None\<rparr>)
      | Inl err \<Rightarrow>
          (let errorMessage' =
                 (case err of Error message \<Rightarrow> message
                            | NonError _ \<Rightarrow> ''An unknown error occurred.'')
           in prev(item_id promptItem \<mapsto>
                \<lparr>image_id = item_id promptItem, status = Failed, url = None,
                 error_text = Some errorMessage'\<rparr>)))"

text \<open>
  \<^verbatim>\<open>handleGenerate\<close> runs \<^verbatim>\<open>concurrencyLimit\<close> workers over one shared queue on a single
  thread; control changes hands only where a worker awaits. A worker is at the head of
  its loop, awaits the operation for the item it took, or has returned.
\<close>

datatype worker = AtLoopHead | Awaiting promptItem | Returned

record pool =
  queue :: "promptItem list"
  workers :: "worker list"
  generatedImages :: images

definition concurrencyLimit :: nat where
  "concurrencyLimit = 3"

definition initialImages :: "promptItem list \<Rightarrow> images" where
  "initialImages promptsToUse =
     fold (\<lambda>p m. m(item_id p \<mapsto>
              \<lparr>image_id = item_id p, status = Pending, url = None, error_text = None\<rparr>))
          promptsToUse Map.empty"

definition handleGenerate_start :: "promptItem list \<Rightarrow> pool" where
  "handleGenerate_start promptsToUse =
     \<lparr>queue = promptsToUse,
      workers = replicate concurrencyLimit AtLoopHead,
      generatedImages = initialImages promptsToUse\<rparr>"

text \<open>
  One step of worker \<open>i\<close>: at the loop head it returns when the queue is empty and
  otherwise shifts the first item off the queue and starts its operation; when the awaited
  operation settles it stores the item's status and is back at the loop head.
\<close>

definition worker_step :: "(string \<Rightarrow> string list \<Rightarrow> thrown + string) \<Rightarrow> string \<Rightarrow> nat \<Rightarrow> pool \<Rightarrow> pool" where
  "worker_step generate resizedImage i s =
     (if i < length (workers s) then
        (case workers s ! i of
           AtLoopHead \<Rightarrow>
             (case queue s of
                [] \<Rightarrow> s\<lparr>workers := (workers s)[i := Returned]\<rparr>
              | promptItem # rest \<Rightarrow>
                  s\<lparr>queue := rest, workers := (workers s)[i := Awaiting promptItem]\<rparr>)
         | Awaiting promptItem \<Rightarrow>
             s\<lparr>workers := (workers s)[i := AtLoopHead],
               generatedImages := processSinglePrompt generate promptItem resizedImage (generatedImages s)\<rparr>
         | Returned \<Rightarrow> s)
      else s)"

text \<open>
  A run of the batch under a schedule: the list of the workers that take the successive
  steps. \<^verbatim>\<open>Promise.all(workers)\<close> has resolved when every worker has returned.
\<close>

definition run_pool :: "(string \<Rightarrow> string list \<Rightarrow> thrown + string) \<Rightarrow> string \<Rightarrow> nat list \<Rightarrow> pool \<Rightarrow> pool" where
  "run_pool generate resizedImage schedule s = fold (worker_step generate resizedImage) schedule s"

definition all_returned :: "pool \<Rightarrow> bool" where
  "all_returned s \<longleftrightarrow> list_all (\<lambda>w. w = Returned) (workers s)"

text \<open>
  The batch of \<^verbatim>\<open>handleGenerate\<close> for the items \<open>promptsToUse\<close>, once the uploaded image
  has been resized, and \<^verbatim>\<open>handleGenerate\<close> itself, which takes the items from
  \<^verbatim>\<open>getPrompts(gender)\<close>.
\<close>

definition run_batch :: "(string \<Rightarrow> string list \<Rightarrow> thrown + string) \<Rightarrow> string \<Rightarrow> promptItem list \<Rightarrow> nat list \<Rightarrow> pool" where
  "run_batch generate resizedImage promptsToUse schedule =
     run_pool generate resizedImage schedule (handleGenerate_start promptsToUse)"

definition handleGenerate :: "(string \<Rightarrow> string list \<Rightarrow> thrown + string) \<Rightarrow> string \<Rightarrow> (gender \<Rightarrow> nat \<Rightarrow> string) \<Rightarrow> gender \<Rightarrow> nat list \<Rightarrow> pool" where
  "handleGenerate generate resizedImage texts g schedule =
     run_batch generate resizedImage (getPrompts texts g) schedule"


section \<open>Auxiliary definitions\<close>

text \<open>
  The pairs the codec is meant for: a media type \<^verbatim>\<open>image/\<close> followed by one or more word
  characters, and a payload without line terminators (every base64 text is one).
\<close>

definition valid_image :: "string \<Rightarrow> string \<Rightarrow> bool" where
  "valid_image mediaType payload \<longleftrightarrow>
     (case strip_prefix ''image/'' mediaType of
        None \<Rightarrow> False
      | Some w \<Rightarrow> w \<noteq> [] \<and> list_all is_word_char w) \<and>
     \<not> list_ex is_line_terminator payload"

text \<open>The status cell \<^verbatim>\<open>processSinglePrompt\<close> stores for an item.\<close>

definition settled_status :: "(string \<Rightarrow> string list \<Rightarrow> thrown + string) \<Rightarrow> string \<Rightarrow> promptItem \<Rightarrow> generatedImage" where
  "settled_status generate resizedImage p =
     (case generate (prompt p) [resizedImage] of
        Inr resultUrl \<Rightarrow>
          \<lparr>image_id = item_id p, status = Done, url = Some resultUrl, error_text = None\<rparr>
      | Inl (Error message) \<Rightarrow>
          \<lparr>image_id = item_id p, status = Failed, url = None, error_text = Some message\<rparr>
      | Inl (NonError _) \<Rightarrow>
          \<lparr>image_id = item_id p, status = Failed, url = None,
           error_text = Some ''An unknown error occurred.''\<rparr>)"

text \<open>The invariant of the worker pool and the measure that every step decreases.\<close>

definition pool_inv :: "(string \<Rightarrow> string list \<Rightarrow> thrown + string) \<Rightarrow> string \<Rightarrow> promptItem list \<Rightarrow> pool \<Rightarrow> bool" where
  "pool_inv generate img jobs s \<longleftrightarrow>
     length (workers s) = concurrencyLimit \<and>
     set (queue s) \<subseteq> set jobs \<and>
     (\<forall>p. Awaiting p \<in> set (workers s) \<longrightarrow> p \<in> set jobs) \<and>
     (Returned \<in> set (workers s) \<longrightarrow> queue s = []) \<and>
     (\<forall>p \<in> set jobs.
        generatedImages s (item_id p) = Some (settled_status generate img p) \<or>
        p \<in> set (queue s) \<or> Awaiting p \<in> set (workers s))"

fun worker_weight :: "worker \<Rightarrow> nat" where
  "worker_weight AtLoopHead = 1"
| "worker_weight (Awaiting p) = 2"
| "worker_weight Returned = 0"

definition pool_measure :: "pool \<Rightarrow> nat" where
  "pool_measure s = 3 * length (queue s) + sum_list (map worker_weight (workers s))"

text \<open>Concrete inputs for the examples.\<close>

definition sample_png :: string where
  "sample_png = ''data:image/png;base64,iVBORw0KGgo=''"

definition sample_jpeg :: string where
  "sample_jpeg = ''data:image/jpeg;base64,/9j/4AAQSkZJRg==''"

definition empty_trace :: trace where
  "empty_trace = \<lparr>requests = [], delays = []\<rparr>"

definition sample_response :: response where
  "sample_response =
     \<lparr>candidates = Some [\<lparr>content = Some \<lparr>parts = Some
          [textPart ''Here is your image.'',
           imagePart ''image/png'' ''AAAA'',
           imagePart ''image/jpeg'' ''BBBB'']\<rparr>\<rparr>],
      response_text = Some ''Here is your image.''\<rparr>"

definition text_only_response :: response where
  "text_only_response =
     \<lparr>candidates = Some [\<lparr>content = Some \<lparr>parts = Some [textPart ''I cannot do that.'']\<rparr>\<rparr>],
      response_text = Some ''I cannot do that.''\<rparr>"

definition internal_failure :: thrown where
  "internal_failure =
     Error ''{\"error\":{\"code\":500,\"message\":\"An internal error has occurred.\",\"status\":\"INTERNAL\"}}''"

definition always_internal :: endpoint where
  "always_internal n ps = Inl internal_failure"

definition always_denied :: endpoint where
  "always_denied n ps = Inl (Error ''API key not valid. Please pass a valid API key.'')"

definition internal_then_denied :: endpoint where
  "internal_then_denied n ps =
     (if n = 0 then Inl internal_failure
      else Inl (Error ''API key not valid. Please pass a valid API key.''))"

definition always_image :: endpoint where
  "always_image n ps = Inr sample_response"

definition sample_texts :: "gender \<Rightarrow> nat \<Rightarrow> string" where
  "sample_texts g n =
     (if n = 1 then ''one'' else if n = 2 then ''two'' else if n = 3 then ''three''
      else if n = 4 then ''four'' else ''five'')"

definition fails_on_three :: endpoint where
  "fails_on_three n ps =
     (if textPart ''three'' \<in> set ps then Inl (Error ''quota exceeded'') else Inr sample_response)"

definition sample_generate :: "string \<Rightarrow> string list \<Rightarrow> thrown + string" where
  "sample_generate p imgs = fst (generateStyledImage fails_on_three p imgs None empty_trace)"

definition sample_schedule :: "nat list" where
  "sample_schedule = [0, 1, 2, 2, 2, 0, 0, 1, 1, 2, 2, 0, 0]"


section \<open>Strings and the codec\<close>

lemma strip_prefix_iff: "strip_prefix p s = Some r \<longleftrightarrow> s = p @ r"
  by (induction p s rule: strip_prefix.induct) auto

lemma startsWith_iff: "startsWith s p \<longleftrightarrow> (\<exists>r. s = p @ r)"
  by (induction s p rule: startsWith.induct) auto

lemma str_includes_iff: "str_includes s needle \<longleftrightarrow> (\<exists>pre post. s = pre @ needle @ post)"
proof (induction s)
  case Nil
  then show ?case by auto
next
  case (Cons c cs)
  show ?case
  proof
    assume "str_includes (c # cs) needle"
    then consider "startsWith (c # cs) needle" | "str_includes cs needle" by auto
    then show "\<exists>pre post. c # cs = pre @ needle @ post"
    proof cases
      case 1
      then obtain r where "c # cs = needle @ r" by (auto simp: startsWith_iff)
      then have "c # cs = [] @ needle @ r" by simp
      then show ?thesis by blast
    next
      case 2
      then obtain pre post where "cs = pre @ needle @ post" using Cons.IH by blast
      then have "c # cs = (c # pre) @ needle @ post" by simp
      then show ?thesis by blast
    qed
  next
    assume "\<exists>pre post. c # cs = pre @ needle @ post"
    then obtain pre post where e: "c # cs = pre @ needle @ post" by blast
    show "str_includes (c # cs) needle"
    proof (cases pre)
      case Nil
      with e have "startsWith (c # cs) needle" by (auto simp: startsWith_iff)
      then show ?thesis by simp
    next
      case (Cons a pre')
      with e have "cs = pre' @ needle @ post" by simp
      then have "str_includes cs needle" using Cons.IH by blast
      then show ?thesis by simp
    qed
  qed
qed

lemma semicolon_not_word: "\<not> is_word_char CHR '';''"
  by (simp add: is_word_char_def)

lemma takeWhile_word_run:
  "\<forall>c \<in> set w. is_word_char c \<Longrightarrow> takeWhile is_word_char (w @ CHR '';'' # t) = w"
  using semicolon_not_word by (simp add: takeWhile_append2)

lemma dropWhile_word_run:
  "\<forall>c \<in> set w. is_word_char c \<Longrightarrow> dropWhile is_word_char (w @ CHR '';'' # t) = CHR '';'' # t"
  using semicolon_not_word by (simp add: dropWhile_append2)

lemma decode_encode:
  assumes "w \<noteq> []" and "\<forall>c \<in> set w. is_word_char c"
    and "\<forall>c \<in> set b. \<not> is_line_terminator c"
  shows "decode (encode (''image/'' @ w) b) = Some (''image/'' @ w, b)"
proof -
  have le: "\<not> list_ex is_line_terminator b"
    using assms(3) by (simp add: list_ex_iff)
  show ?thesis
    using assms(1) le
    by (simp add: encode_def decode_def takeWhile_word_run[OF assms(2)]
          dropWhile_word_run[OF assms(2)])
qed

text \<open>The matcher accepts exactly the strings the pattern describes.\<close>

lemma decode_Some_iff: "decode s = Some (m, d) \<longleftrightarrow> matches_pattern s m d"
proof
  assume "decode s = Some (m, d)"
  then obtain r where r: "strip_prefix ''data:image/'' s = Some r"
    and w: "takeWhile is_word_char r \<noteq> []"
    and p: "strip_prefix '';base64,'' (dropWhile is_word_char r) = Some d"
    and l: "\<not> list_ex is_line_terminator d"
    and m: "m = ''image/'' @ takeWhile is_word_char r"
    by (auto simp: decode_def Let_def split: option.splits if_splits)
  from r have s: "s = ''data:image/'' @ r" by (simp only: strip_prefix_iff)
  from p have dr: "dropWhile is_word_char r = '';base64,'' @ d" by (simp only: strip_prefix_iff)
  have "r = takeWhile is_word_char r @ dropWhile is_word_char r" by simp
  with dr have r': "r = takeWhile is_word_char r @ '';base64,'' @ d" by simp
  have aw: "\<forall>c \<in> set (takeWhile is_word_char r). is_word_char c"
    by (auto dest: set_takeWhileD)
  have "s = ''data:'' @ m @ '';base64,'' @ d"
    using s r' m by (metis append_Cons append_Nil)
  then show "matches_pattern s m d"
    unfolding matches_pattern_def using w aw m l by (auto simp: list_ex_iff)
next
  assume "matches_pattern s m d"
  then obtain w where "w \<noteq> []" "\<forall>c \<in> set w. is_word_char c" "m = ''image/'' @ w"
    "s = ''data:'' @ m @ '';base64,'' @ d" "\<forall>c \<in> set d. \<not> is_line_terminator c"
    unfolding matches_pattern_def by blast
  then show "decode s = Some (m, d)"
    using decode_encode[of w d] by (simp add: encode_def)
qed

lemma decode_None_iff: "decode s = None \<longleftrightarrow> (\<forall>m d. \<not> matches_pattern s m d)"
proof -
  have "decode s = None \<longleftrightarrow> (\<forall>m d. decode s \<noteq> Some (m, d))"
    by (cases "decode s") auto
  then show ?thesis by (simp only: decode_Some_iff)
qed

lemma valid_image_iff:
  "valid_image m b \<longleftrightarrow> matches_pattern (encode m b) m b"
proof -
  have "(\<exists>w. strip_prefix ''image/'' m = Some w \<and> w \<noteq> [] \<and> list_all is_word_char w)
        \<longleftrightarrow> (\<exists>w. w \<noteq> [] \<and> (\<forall>c \<in> set w. is_word_char c) \<and> m = ''image/'' @ w)"
    by (auto simp only: strip_prefix_iff list_all_iff)
  then show ?thesis
    unfolding valid_image_def matches_pattern_def encode_def
    by (auto simp: list_ex_iff split: option.splits)
qed

lemma decode_all_None: "decode_all urls = None \<longleftrightarrow> (\<exists>u \<in> set urls. decode u = None)"
  by (induction urls) (auto split: option.splits)

lemma all_dropWhile:
  "(\<forall>x \<in> set (dropWhile P xs). P x) \<longleftrightarrow> (\<forall>x \<in> set xs. P x)"
  by (induction xs) auto

lemma trim_nonempty_iff: "trim s \<noteq> [] \<longleftrightarrow> (\<exists>c \<in> set s. \<not> is_trim_space c)"
proof -
  have "trim s = [] \<longleftrightarrow> (\<forall>x \<in> set (dropWhile is_trim_space s). is_trim_space x)"
    by (simp add: trim_def)
  then show ?thesis by (simp add: all_dropWhile)
qed

lemma with_regeneration_trim:
  "with_regeneration t add =
     (case add of None \<Rightarrow> t
      | Some s \<Rightarrow> if trim s \<noteq> [] then t @ regenerationHeader @ s else t)"
  by (auto simp: with_regeneration_def trim_def split: option.splits)


section \<open>The resolver\<close>

lemma find_first:
  "find P xs = Some x \<longleftrightarrow> (\<exists>pre post. xs = pre @ x # post \<and> P x \<and> (\<forall>q \<in> set pre. \<not> P q))"
proof (induction xs)
  case Nil
  then show ?case by simp
next
  case (Cons a xs)
  show ?case
  proof (cases "P a")
    case True
    have "(\<exists>pre post. a # xs = pre @ x # post \<and> P x \<and> (\<forall>q \<in> set pre. \<not> P q)) \<longleftrightarrow> a = x"
    proof
      assume "\<exists>pre post. a # xs = pre @ x # post \<and> P x \<and> (\<forall>q \<in> set pre. \<not> P q)"
      then obtain pre post where e: "a # xs = pre @ x # post" "\<forall>q \<in> set pre. \<not> P q" by blast
      show "a = x"
      proof (cases pre)
        case Nil
        with e show ?thesis by simp
      next
        case (Cons b pre')
        with e True show ?thesis by auto
      qed
    next
      assume "a = x"
      then have "a # xs = [] @ x # xs \<and> P x \<and> (\<forall>q \<in> set []. \<not> P q)" using True by simp
      then show "\<exists>pre post. a # xs = pre @ x # post \<and> P x \<and> (\<forall>q \<in> set pre. \<not> P q)" by blast
    qed
    with True show ?thesis by simp
  next
    case False
    have "(\<exists>pre post. a # xs = pre @ x # post \<and> P x \<and> (\<forall>q \<in> set pre. \<not> P q))
          \<longleftrightarrow> (\<exists>pre post. xs = pre @ x # post \<and> P x \<and> (\<forall>q \<in> set pre. \<not> P q))"
    proof
      assume "\<exists>pre post. a # xs = pre @ x # post \<and> P x \<and> (\<forall>q \<in> set pre. \<not> P q)"
      then obtain pre post where e: "a # xs = pre @ x # post" "P x" "\<forall>q \<in> set pre. \<not> P q" by blast
      show "\<exists>pre post. xs = pre @ x # post \<and> P x \<and> (\<forall>q \<in> set pre. \<not> P q)"
      proof (cases pre)
        case Nil
        with e False show ?thesis by simp
      next
        case (Cons b pre')
        with e have "xs = pre' @ x # post \<and> P x \<and> (\<forall>q \<in> set pre'. \<not> P q)" by simp
        then show ?thesis by blast
      qed
    next
      assume "\<exists>pre post. xs = pre @ x # post \<and> P x \<and> (\<forall>q \<in> set pre. \<not> P q)"
      then obtain pre post where e: "xs = pre @ x # post" "P x" "\<forall>q \<in> set pre. \<not> P q" by blast
      then have "a # xs = (a # pre) @ x # post \<and> P x \<and> (\<forall>q \<in> set (a # pre). \<not> P q)"
        using False by simp
      then show "\<exists>pre post. a # xs = pre @ x # post \<and> P x \<and> (\<forall>q \<in> set pre. \<not> P q)" by blast
    qed
    with False Cons.IH show ?thesis by simp
  qed
qed

lemma resolver_image:
  "processGeminiResponse r = Inr u \<longleftrightarrow>
     (\<exists>ps pre p post b. response_parts r = Some ps \<and> ps = pre @ p # post \<and>
        (\<forall>q \<in> set pre. inlineData q = None) \<and> inlineData p = Some b \<and>
        u = encode (tmpl (mimeType b)) (tmpl (data b)))"
proof
  assume a: "processGeminiResponse r = Inr u"
  then obtain ps p b where ps: "response_parts r = Some ps"
    and f: "find (\<lambda>p. inlineData p \<noteq> None) ps = Some p"
    and b: "inlineData p = Some b" and u: "u = encode (tmpl (mimeType b)) (tmpl (data b))"
    by (auto simp: processGeminiResponse_def split: option.splits)
  from f obtain pre post where "ps = pre @ p # post" "\<forall>q \<in> set pre. \<not> inlineData q \<noteq> None"
    unfolding find_first by blast
  with ps b u show "\<exists>ps pre p post b. response_parts r = Some ps \<and> ps = pre @ p # post \<and>
        (\<forall>q \<in> set pre. inlineData q = None) \<and> inlineData p = Some b \<and>
        u = encode (tmpl (mimeType b)) (tmpl (data b))"
    by auto
next
  assume "\<exists>ps pre p post b. response_parts r = Some ps \<and> ps = pre @ p # post \<and>
        (\<forall>q \<in> set pre. inlineData q = None) \<and> inlineData p = Some b \<and>
        u = encode (tmpl (mimeType b)) (tmpl (data b))"
  then obtain ps pre p post b where ps: "response_parts r = Some ps" and e: "ps = pre @ p # post"
    and n: "\<forall>q \<in> set pre. inlineData q = None" and b: "inlineData p = Some b"
    and u: "u = encode (tmpl (mimeType b)) (tmpl (data b))" by blast
  have "find (\<lambda>p. inlineData p \<noteq> None) ps = Some p"
    unfolding find_first using e n b by auto
  with ps b u show "processGeminiResponse r = Inr u"
    by (simp add: processGeminiResponse_def)
qed

lemma resolver_no_image:
  assumes "\<forall>ps. response_parts r = Some ps \<longrightarrow> (\<forall>q \<in> set ps. inlineData q = None)"
  shows "processGeminiResponse r = Inl (no_image_error r)"
proof (cases "response_parts r")
  case None
  then show ?thesis by (simp add: processGeminiResponse_def)
next
  case (Some ps)
  with assms have "find (\<lambda>p. inlineData p \<noteq> None) ps = None"
    by (auto simp: find_None_iff)
  with Some show ?thesis by (simp add: processGeminiResponse_def)
qed


section \<open>The transport\<close>

lemma retry_loop_success:
  "attempt \<le> maxRetries \<Longrightarrow> ai (length (requests tr)) ps = Inr r \<Longrightarrow>
   retry_loop ai ps attempt tr = (Inr r, tr\<lparr>requests := requests tr @ [ps]\<rparr>)"
  by (subst retry_loop.simps) simp

lemma retry_loop_propagate:
  "attempt \<le> maxRetries \<Longrightarrow> ai (length (requests tr)) ps = Inl err \<Longrightarrow>
   \<not> (isInternalError err \<and> attempt < maxRetries) \<Longrightarrow>
   retry_loop ai ps attempt tr = (Inl err, tr\<lparr>requests := requests tr @ [ps]\<rparr>)"
  by (subst retry_loop.simps) auto

lemma retry_loop_retry:
  "attempt < maxRetries \<Longrightarrow> ai (length (requests tr)) ps = Inl err \<Longrightarrow> isInternalError err \<Longrightarrow>
   retry_loop ai ps attempt tr =
     retry_loop ai ps (attempt + 1)
       (tr\<lparr>requests := requests tr @ [ps],
           delays := delays tr @ [initialDelay * 2 ^ (attempt - 1)]\<rparr>)"
  by (subst retry_loop.simps) (simp add: Let_def)

text \<open>What a run of the loop adds to the trace.\<close>

lemma retry_loop_trace:
  "1 \<le> attempt \<Longrightarrow> attempt \<le> maxRetries \<Longrightarrow>
   \<exists>k. 1 \<le> k \<and> attempt + k \<le> Suc maxRetries \<and>
       requests (snd (retry_loop ai ps attempt tr)) = requests tr @ replicate k ps \<and>
       delays (snd (retry_loop ai ps attempt tr)) =
         delays tr @ map (\<lambda>a. initialDelay * 2 ^ (a - 1)) [attempt ..< attempt + k - 1]"
proof (induction ai ps attempt tr rule: retry_loop.induct)
  case (1 ai ps attempt tr)
  show ?case
  proof (cases "ai (length (requests tr)) ps")
    case (Inr r)
    with "1.prems" have "retry_loop ai ps attempt tr = (Inr r, tr\<lparr>requests := requests tr @ [ps]\<rparr>)"
      by (simp add: retry_loop_success)
    with "1.prems" show ?thesis by (intro exI[of _ 1]) simp
  next
    case (Inl err)
    show ?thesis
    proof (cases "isInternalError err \<and> attempt < maxRetries")
      case False
      with Inl "1.prems" have "retry_loop ai ps attempt tr = (Inl err, tr\<lparr>requests := requests tr @ [ps]\<rparr>)"
        by (simp add: retry_loop_propagate)
      with "1.prems" show ?thesis by (intro exI[of _ 1]) simp
    next
      case True
      define tr' where "tr' = tr\<lparr>requests := requests tr @ [ps],
           delays := delays tr @ [initialDelay * 2 ^ (attempt - 1)]\<rparr>"
      have step: "retry_loop ai ps attempt tr = retry_loop ai ps (attempt + 1) tr'"
        unfolding tr'_def using True Inl by (simp add: retry_loop_retry)
      have b: "1 \<le> attempt + 1" "attempt + 1 \<le> maxRetries"
        using True by auto
      have eq: "(tr\<lparr>requests := requests tr @ [ps]\<rparr>)
                  \<lparr>delays := delays (tr\<lparr>requests := requests tr @ [ps]\<rparr>)
                     @ [initialDelay * 2 ^ (attempt - 1)]\<rparr> = tr'"
        by (simp add: tr'_def)
      note ih = "1.IH"[OF "1.prems"(2) refl Inl True refl b, unfolded eq]
      from ih obtain k where k: "1 \<le> k" "attempt + 1 + k \<le> Suc maxRetries"
        "requests (snd (retry_loop ai ps (attempt + 1) tr')) = requests tr' @ replicate k ps"
        "delays (snd (retry_loop ai ps (attempt + 1) tr')) =
           delays tr' @ map (\<lambda>a. initialDelay * 2 ^ (a - 1)) [attempt + 1 ..< attempt + 1 + k - 1]"
        by auto
      have r: "requests (snd (retry_loop ai ps attempt tr)) = requests tr @ replicate (Suc k) ps"
        using k(3) step by (simp add: tr'_def replicate_append_same)
      have "[attempt ..< attempt + Suc k - 1] = attempt # [attempt + 1 ..< attempt + 1 + k - 1]"
        using k(1) by (simp add: upt_conv_Cons)
      then have d: "delays (snd (retry_loop ai ps attempt tr)) =
           delays tr @ map (\<lambda>a. initialDelay * 2 ^ (a - 1)) [attempt ..< attempt + Suc k - 1]"
        using k(4) step by (simp add: tr'_def)
      show ?thesis
        using k(1,2) r d by (intro exI[of _ "Suc k"]) simp
    qed
  qed
qed

lemma call_trace:
  "\<exists>k. 1 \<le> k \<and> k \<le> 3 \<and>
       requests (snd (callImageModelWithRetry ai ps tr)) = requests tr @ replicate k ps"
proof -
  obtain k where "1 \<le> k" "1 + k \<le> Suc maxRetries"
    "requests (snd (retry_loop ai ps 1 tr)) = requests tr @ replicate k ps"
    using retry_loop_trace[of 1 ai ps tr] by (auto simp: maxRetries_def)
  then show ?thesis
    unfolding callImageModelWithRetry_def by (intro exI[of _ k]) (simp add: maxRetries_def)
qed

lemma retry_first:
  "ai (length (requests tr)) ps = Inl err \<Longrightarrow> isInternalError err \<Longrightarrow>
   retry_loop ai ps 1 tr =
     retry_loop ai ps 2 (tr\<lparr>requests := requests tr @ [ps], delays := delays tr @ [1000]\<rparr>)"
  apply (subst retry_loop.simps)
  apply (simp add: maxRetries_def initialDelay_def Let_def)
  apply (simp add: numeral_2_eq_2)
  done

lemma retry_second:
  "ai (length (requests tr)) ps = Inl err \<Longrightarrow> isInternalError err \<Longrightarrow>
   retry_loop ai ps 2 tr =
     retry_loop ai ps 3 (tr\<lparr>requests := requests tr @ [ps], delays := delays tr @ [2000]\<rparr>)"
  by (subst retry_loop.simps) (simp add: maxRetries_def initialDelay_def Let_def)

lemma retry_third:
  "ai (length (requests tr)) ps = Inl err \<Longrightarrow>
   retry_loop ai ps 3 tr = (Inl err, tr\<lparr>requests := requests tr @ [ps]\<rparr>)"
  by (subst retry_loop.simps) (simp add: maxRetries_def Let_def)

lemma call_success:
  "ai (length (requests tr)) ps = Inr r \<Longrightarrow>
   callImageModelWithRetry ai ps tr = (Inr r, tr\<lparr>requests := requests tr @ [ps]\<rparr>)"
  unfolding callImageModelWithRetry_def by (rule retry_loop_success) (simp_all add: maxRetries_def)

lemma call_three_failures:
  assumes "ai (length (requests tr)) ps = Inl f1" "isInternalError f1"
    and "ai (length (requests tr) + 1) ps = Inl f2" "isInternalError f2"
    and "ai (length (requests tr) + 2) ps = Inl f3"
  shows "callImageModelWithRetry ai ps tr =
     (Inl f3, tr\<lparr>requests := requests tr @ [ps, ps, ps], delays := delays tr @ [1000, 2000]\<rparr>)"
proof -
  define t1 where "t1 = tr\<lparr>requests := requests tr @ [ps], delays := delays tr @ [1000]\<rparr>"
  define t2 where "t2 = t1\<lparr>requests := requests t1 @ [ps], delays := delays t1 @ [2000]\<rparr>"
  have s1: "retry_loop ai ps 1 tr = retry_loop ai ps 2 t1"
    unfolding t1_def using assms(1,2) by (rule retry_first)
  have "ai (length (requests t1)) ps = Inl f2"
    using assms(3) by (simp add: t1_def)
  then have s2: "retry_loop ai ps 2 t1 = retry_loop ai ps 3 t2"
    unfolding t2_def using assms(4) by (rule retry_second)
  have "ai (length (requests t2)) ps = Inl f3"
    using assms(5) by (simp add: t1_def t2_def)
  then have s3: "retry_loop ai ps 3 t2 = (Inl f3, t2\<lparr>requests := requests t2 @ [ps]\<rparr>)"
    by (rule retry_third)
  show ?thesis
    unfolding callImageModelWithRetry_def s1 s2 s3 by (simp add: t1_def t2_def)
qed

lemma call_not_internal:
  assumes "ai (length (requests tr)) ps = Inl err" "\<not> isInternalError err"
  shows "callImageModelWithRetry ai ps tr = (Inl err, tr\<lparr>requests := requests tr @ [ps]\<rparr>)"
  unfolding callImageModelWithRetry_def
  using retry_loop_propagate[of 1 ai tr ps err] assms by (simp add: maxRetries_def)

lemma call_second_not_internal:
  assumes "ai (length (requests tr)) ps = Inl f1" "isInternalError f1"
    and "ai (length (requests tr) + 1) ps = Inl f2" "\<not> isInternalError f2"
  shows "callImageModelWithRetry ai ps tr =
     (Inl f2, tr\<lparr>requests := requests tr @ [ps, ps], delays := delays tr @ [1000]\<rparr>)"
proof -
  define t1 where "t1 = tr\<lparr>requests := requests tr @ [ps], delays := delays tr @ [1000]\<rparr>"
  have s1: "retry_loop ai ps 1 tr = retry_loop ai ps 2 t1"
    unfolding t1_def using assms(1,2) by (rule retry_first)
  have "ai (length (requests t1)) ps = Inl f2"
    using assms(3) by (simp add: t1_def)
  then have s2: "retry_loop ai ps 2 t1 = (Inl f2, t1\<lparr>requests := requests t1 @ [ps]\<rparr>)"
    using assms(4) by (intro retry_loop_propagate) (simp_all add: maxRetries_def)
  show ?thesis
    unfolding callImageModelWithRetry_def s1 s2 by (simp add: t1_def)
qed

lemma call_internal_again:
  assumes "ai (length (requests tr)) ps = Inl err" "isInternalError err"
  shows "\<exists>k. 1 \<le> k \<and>
     requests (snd (callImageModelWithRetry ai ps tr)) = requests tr @ ps # replicate k ps"
proof -
  define t1 where "t1 = tr\<lparr>requests := requests tr @ [ps], delays := delays tr @ [1000]\<rparr>"
  have s1: "retry_loop ai ps 1 tr = retry_loop ai ps 2 t1"
    unfolding t1_def using assms by (rule retry_first)
  obtain k where k: "1 \<le> k" "requests (snd (retry_loop ai ps 2 t1)) = requests t1 @ replicate k ps"
    using retry_loop_trace[of 2 ai ps t1] by (auto simp: maxRetries_def)
  show ?thesis
    unfolding callImageModelWithRetry_def s1 using k by (intro exI[of _ k]) (simp add: t1_def)
qed


section \<open>The operations\<close>

lemma request_cycle_trace:
  "\<exists>k. 1 \<le> k \<and> k \<le> 3 \<and>
       requests (snd (request_cycle ai ps txt tr)) = requests tr @ replicate k ps"
proof -
  have "snd (request_cycle ai ps txt tr) = snd (callImageModelWithRetry ai ps tr)"
    by (simp add: request_cycle_def split: prod.splits sum.splits)
  then show ?thesis using call_trace[of ai ps tr] by simp
qed

lemma request_cycle_image:
  assumes "ai (length (requests tr)) ps = Inr r" "processGeminiResponse r = Inr u"
  shows "request_cycle ai ps txt tr = (Inr u, tr\<lparr>requests := requests tr @ [ps]\<rparr>)"
  using assms by (simp add: request_cycle_def call_success)

lemma request_cycle_denied:
  assumes "ai (length (requests tr)) ps = Inl err" "\<not> isInternalError err"
  shows "request_cycle ai ps txt tr =
     (Inl (Error (txt @ errorMessage err)), tr\<lparr>requests := requests tr @ [ps]\<rparr>)"
  using assms by (simp add: request_cycle_def call_not_internal)


section \<open>The worker pool\<close>

lemma processSinglePrompt_settled:
  "processSinglePrompt generate p img prev = prev(item_id p \<mapsto> settled_status generate img p)"
  by (simp add: processSinglePrompt_def settled_status_def split: sum.splits thrown.splits)

lemma in_set_update_other:
  assumes "x \<in> set xs" "x \<noteq> xs ! i"
  shows "x \<in> set (xs[i := y])"
proof -
  from assms(1) obtain j where j: "j < length xs" "xs ! j = x" by (auto simp: in_set_conv_nth)
  with assms(2) have "j \<noteq> i" by auto
  with j have "(xs[i := y]) ! j = x" "j < length (xs[i := y])" by simp_all
  then show ?thesis by (metis nth_mem)
qed

lemma in_set_updateD: "x \<in> set (xs[i := y]) \<Longrightarrow> x = y \<or> x \<in> set xs"
  using set_update_subset_insert[of xs i y] by auto

lemma pool_inv_start: "pool_inv generate img jobs (handleGenerate_start jobs)"
  by (simp add: pool_inv_def handleGenerate_start_def concurrencyLimit_def)

lemma distinct_ids_eq:
  "distinct (map item_id jobs) \<Longrightarrow> p \<in> set jobs \<Longrightarrow> q \<in> set jobs \<Longrightarrow> item_id p = item_id q \<Longrightarrow> p = q"
  by (meson distinct_map inj_onD)

lemma pool_inv_step:
  assumes d: "distinct (map item_id jobs)" and inv: "pool_inv generate img jobs s"
  shows "pool_inv generate img jobs (worker_step generate img i s)"
proof (cases "i < length (workers s)")
  case False
  with inv show ?thesis by (simp add: worker_step_def)
next
  case i: True
  from inv have len: "length (workers s) = concurrencyLimit"
    and q: "set (queue s) \<subseteq> set jobs"
    and aw: "\<And>p. Awaiting p \<in> set (workers s) \<Longrightarrow> p \<in> set jobs"
    and ret: "Returned \<in> set (workers s) \<Longrightarrow> queue s = []"
    and st: "\<And>p. p \<in> set jobs \<Longrightarrow>
        generatedImages s (item_id p) = Some (settled_status generate img p) \<or>
        p \<in> set (queue s) \<or> Awaiting p \<in> set (workers s)"
    unfolding pool_inv_def by auto
  show ?thesis
  proof (cases "workers s ! i")
    case Returned
    with i inv show ?thesis by (simp add: worker_step_def)
  next
    case AtLoopHead
    show ?thesis
    proof (cases "queue s")
      case Nil
      have step: "worker_step generate img i s = s\<lparr>workers := (workers s)[i := Returned]\<rparr>"
        using i AtLoopHead Nil by (simp add: worker_step_def)
      have keep: "\<And>p. Awaiting p \<in> set (workers s) \<Longrightarrow> Awaiting p \<in> set ((workers s)[i := Returned])"
        using AtLoopHead by (intro in_set_update_other) auto
      have c2: "\<forall>p'. Awaiting p' \<in> set ((workers s)[i := Returned]) \<longrightarrow> p' \<in> set jobs"
        using aw by (auto dest!: in_set_updateD)
      have c4: "\<forall>p' \<in> set jobs.
          generatedImages s (item_id p') = Some (settled_status generate img p') \<or>
          p' \<in> set (queue s) \<or> Awaiting p' \<in> set ((workers s)[i := Returned])"
      proof
        fix p' assume "p' \<in> set jobs"
        from st[OF this] show "generatedImages s (item_id p') = Some (settled_status generate img p') \<or>
          p' \<in> set (queue s) \<or> Awaiting p' \<in> set ((workers s)[i := Returned])"
          using keep by blast
      qed
      show ?thesis
        unfolding step pool_inv_def using len q c2 c4 Nil by simp
    next
      case (Cons p rest)
      have step: "worker_step generate img i s =
          s\<lparr>queue := rest, workers := (workers s)[i := Awaiting p]\<rparr>"
        using i AtLoopHead Cons by (simp add: worker_step_def)
      have keep: "\<And>p'. Awaiting p' \<in> set (workers s) \<Longrightarrow> Awaiting p' \<in> set ((workers s)[i := Awaiting p])"
        using AtLoopHead by (intro in_set_update_other) auto
      have new: "Awaiting p \<in> set ((workers s)[i := Awaiting p])"
        using i by (simp add: set_update_memI)
      have noret: "Returned \<notin> set (workers s)"
        using ret Cons by auto
      have c1: "set rest \<subseteq> set jobs" using q Cons by auto
      have c2: "\<forall>p'. Awaiting p' \<in> set ((workers s)[i := Awaiting p]) \<longrightarrow> p' \<in> set jobs"
        using aw q Cons by (auto dest!: in_set_updateD)
      have c3: "Returned \<notin> set ((workers s)[i := Awaiting p])"
        using noret by (auto dest!: in_set_updateD)
      have c4: "\<forall>p' \<in> set jobs.
          generatedImages s (item_id p') = Some (settled_status generate img p') \<or>
          p' \<in> set rest \<or> Awaiting p' \<in> set ((workers s)[i := Awaiting p])"
      proof
        fix p' assume "p' \<in> set jobs"
        from st[OF this] consider "generatedImages s (item_id p') = Some (settled_status generate img p')"
          | "p' = p" | "p' \<in> set rest" | "Awaiting p' \<in> set (workers s)"
          using Cons by auto
        then show "generatedImages s (item_id p') = Some (settled_status generate img p') \<or>
          p' \<in> set rest \<or> Awaiting p' \<in> set ((workers s)[i := Awaiting p])"
          using new keep by cases blast+
      qed
      show ?thesis
        unfolding step pool_inv_def using len c1 c2 c3 c4 by simp
    qed
  next
    case (Awaiting p)
    have step: "worker_step generate img i s =
        s\<lparr>workers := (workers s)[i := AtLoopHead],
          generatedImages := (generatedImages s)(item_id p \<mapsto> settled_status generate img p)\<rparr>"
      using i Awaiting by (simp add: worker_step_def processSinglePrompt_settled)
    have pj: "p \<in> set jobs"
      using aw[of p] i Awaiting by (metis nth_mem)
    have c2: "\<forall>p'. Awaiting p' \<in> set ((workers s)[i := AtLoopHead]) \<longrightarrow> p' \<in> set jobs"
      using aw by (auto dest!: in_set_updateD)
    have c3: "Returned \<in> set ((workers s)[i := AtLoopHead]) \<longrightarrow> queue s = []"
      using ret by (auto dest!: in_set_updateD)
    have c4: "\<forall>p' \<in> set jobs.
        ((generatedImages s)(item_id p \<mapsto> settled_status generate img p)) (item_id p')
          = Some (settled_status generate img p') \<or>
        p' \<in> set (queue s) \<or> Awaiting p' \<in> set ((workers s)[i := AtLoopHead])"
    proof
      fix p' assume p': "p' \<in> set jobs"
      show "((generatedImages s)(item_id p \<mapsto> settled_status generate img p)) (item_id p')
          = Some (settled_status generate img p') \<or>
        p' \<in> set (queue s) \<or> Awaiting p' \<in> set ((workers s)[i := AtLoopHead])"
      proof (cases "item_id p' = item_id p")
        case True
        then have "p' = p" using distinct_ids_eq[OF d p' pj] by simp
        then show ?thesis by simp
      next
        case False
        then have ne: "Awaiting p' \<noteq> workers s ! i" using Awaiting by auto
        have keep: "Awaiting p' \<in> set (workers s) \<Longrightarrow> Awaiting p' \<in> set ((workers s)[i := AtLoopHead])"
          using ne by (simp add: in_set_update_other)
        from st[OF p'] show ?thesis
          using False keep by auto
      qed
    qed
    show ?thesis
      unfolding step pool_inv_def using len q c2 c3 c4 by simp
  qed
qed

lemma pool_inv_run:
  "distinct (map item_id jobs) \<Longrightarrow> pool_inv generate img jobs s \<Longrightarrow>
   pool_inv generate img jobs (run_pool generate img schedule s)"
  unfolding run_pool_def
  by (induction schedule arbitrary: s) (simp_all add: pool_inv_step)

lemma pool_inv_final:
  assumes "pool_inv generate img jobs s" "all_returned s" "p \<in> set jobs"
  shows "generatedImages s (item_id p) = Some (settled_status generate img p)"
proof -
  from assms(2) have all: "\<forall>w \<in> set (workers s). w = Returned"
    by (simp add: all_returned_def list_all_iff)
  from assms(1) have "length (workers s) = concurrencyLimit" by (simp add: pool_inv_def)
  then have "workers s \<noteq> []" by (auto simp: concurrencyLimit_def)
  then obtain w where "w \<in> set (workers s)" by (cases "workers s") auto
  with all have "Returned \<in> set (workers s)" by auto
  with assms(1) have "queue s = []" by (simp add: pool_inv_def)
  moreover have "Awaiting p \<notin> set (workers s)" using all by auto
  ultimately show ?thesis using assms(1,3) unfolding pool_inv_def by auto
qed

lemma worker_step_measure:
  assumes "i < length (workers s)" "workers s ! i \<noteq> Returned"
  shows "pool_measure (worker_step generate img i s) < pool_measure s"
proof -
  define W where "W = sum_list (map worker_weight (workers s))"
  have upd: "sum_list (map worker_weight ((workers s)[i := w]))
                 = W + worker_weight w - worker_weight (workers s ! i)" for w
    using assms(1) by (simp add: W_def map_update sum_list_update)
  have "map worker_weight (workers s) ! i \<in> set (map worker_weight (workers s))"
    using assms(1) by (intro nth_mem) simp
  then have "map worker_weight (workers s) ! i \<le> W"
    unfolding W_def by (simp only: member_le_sum_list)
  then have le: "worker_weight (workers s ! i) \<le> W"
    using assms(1) by simp
  have m: "pool_measure s = 3 * length (queue s) + W"
    by (simp add: pool_measure_def W_def)
  show ?thesis
  proof (cases "workers s ! i")
    case Returned
    with assms(2) show ?thesis by simp
  next
    case AtLoopHead
    show ?thesis
    proof (cases "queue s")
      case Nil
      have "worker_step generate img i s = s\<lparr>workers := (workers s)[i := Returned]\<rparr>"
        using assms(1) AtLoopHead Nil by (simp add: worker_step_def)
      then have "pool_measure (worker_step generate img i s) = W + 0 - 1"
        using Nil AtLoopHead upd[of Returned] by (simp add: pool_measure_def)
      then show ?thesis using le AtLoopHead m by simp
    next
      case (Cons p rest)
      have "worker_step generate img i s =
          s\<lparr>queue := rest, workers := (workers s)[i := Awaiting p]\<rparr>"
        using assms(1) AtLoopHead Cons by (simp add: worker_step_def)
      then have "pool_measure (worker_step generate img i s) = 3 * length rest + (W + 2 - 1)"
        using AtLoopHead upd[of "Awaiting p"] by (simp add: pool_measure_def)
      then show ?thesis using le AtLoopHead m Cons by simp
    qed
  next
    case (Awaiting p)
    have "worker_step generate img i s =
        s\<lparr>workers := (workers s)[i := AtLoopHead],
          generatedImages := processSinglePrompt generate p img (generatedImages s)\<rparr>"
      using assms(1) Awaiting by (simp add: worker_step_def)
    then have "pool_measure (worker_step generate img i s) = 3 * length (queue s) + (W + 1 - 2)"
      using Awaiting upd[of AtLoopHead] by (simp add: pool_measure_def)
    then show ?thesis using le Awaiting m by simp
  qed
qed

lemma can_complete: "\<exists>schedule. all_returned (run_pool generate img schedule s)"
proof (induction "pool_measure s" arbitrary: s rule: less_induct)
  case less
  show ?case
  proof (cases "all_returned s")
    case True
    then have "all_returned (run_pool generate img [] s)" by (simp add: run_pool_def)
    then show ?thesis by blast
  next
    case False
    then obtain w where "w \<in> set (workers s)" "w \<noteq> Returned"
      by (auto simp: all_returned_def list_all_iff)
    then obtain i where i: "i < length (workers s)" "workers s ! i \<noteq> Returned"
      by (auto simp: in_set_conv_nth)
    from worker_step_measure[OF i] less obtain schedule
      where "all_returned (run_pool generate img schedule (worker_step generate img i s))"
      by blast
    then have "all_returned (run_pool generate img (i # schedule) s)"
      by (simp add: run_pool_def)
    then show ?thesis by blast
  qed
qed


section \<open>Evaluating the examples\<close>

lemma sample_png_decode: "decode sample_png = Some (''image/png'', ''iVBORw0KGgo='')"
  by (simp add: sample_png_def decode_def is_word_char_def is_line_terminator_def)

lemma sample_jpeg_decode: "decode sample_jpeg = Some (''image/jpeg'', ''/9j/4AAQSkZJRg=='')"
  by (simp add: sample_jpeg_def decode_def is_word_char_def is_line_terminator_def)

lemma sample_response_image:
  "processGeminiResponse sample_response = Inr ''data:image/png;base64,AAAA''"
  by (simp add: processGeminiResponse_def sample_response_def response_parts_def
        textPart_def imagePart_def encode_def)

lemma internal_failure_internal: "isInternalError internal_failure"
  by (simp add: isInternalError_def internal_failure_def)

lemma sample_generate_three:
  "sample_generate ''three'' [sample_png] =
     Inl (Error ''The AI model failed to generate an image. Details: quota exceeded'')"
proof -
  have "\<not> isInternalError (Error ''quota exceeded'')"
    by (simp add: isInternalError_def)
  then show ?thesis
    by (simp add: sample_generate_def generateStyledImage_def sample_png_decode
          with_regeneration_def fails_on_three_def request_cycle_denied empty_trace_def)
qed

lemma sample_generate_other:
  assumes "p \<noteq> ''three''"
  shows "sample_generate p [sample_png] = Inr ''data:image/png;base64,AAAA''"
proof -
  have "fails_on_three 0 [imagePart ''image/png'' ''iVBORw0KGgo='', textPart p] = Inr sample_response"
    using assms by (simp add: fails_on_three_def textPart_def imagePart_def)
  then show ?thesis
    by (simp add: sample_generate_def generateStyledImage_def sample_png_decode
          with_regeneration_def request_cycle_image sample_response_image empty_trace_def)
qed

lemma getPrompts_ids:
  "map item_id (getPrompts texts g) = [''prompt1'', ''prompt2'', ''prompt3'', ''prompt4'', ''prompt5'']"
  by (simp add: getPrompts_def basePrompts_def)

lemma sample_run_returned:
  "all_returned (handleGenerate sample_generate sample_png sample_texts female sample_schedule)"
  by (simp add: handleGenerate_def run_batch_def run_pool_def handleGenerate_start_def
        sample_schedule_def concurrencyLimit_def getPrompts_def basePrompts_def
        worker_step_def all_returned_def numeral_3_eq_3 numeral_2_eq_2)


section \<open>The claims\<close>

subsection \<open>Retrying transport\<close>

text \<open>
  Claim C1. For every parts list the transport invokes the endpoint at least once and at
  most three times, always with the same parts. When the three attempts fail with the
  signature of a transient server fault, the endpoint is invoked exactly three times, the
  delays waited before the second and the third attempt are 1000 ms and 2000 ms, and the
  third failure is the one the caller receives.
\<close>

theorem retry_bound:
  "(\<exists>k. 1 \<le> k \<and> k \<le> 3 \<and>
        requests (snd (callImageModelWithRetry ai ps tr)) = requests tr @ replicate k ps) \<and>
   (ai (length (requests tr)) ps = Inl f1 \<and> isInternalError f1 \<and>
    ai (length (requests tr) + 1) ps = Inl f2 \<and> isInternalError f2 \<and>
    ai (length (requests tr) + 2) ps = Inl f3 \<and> isInternalError f3 \<longrightarrow>
    callImageModelWithRetry ai ps tr =
      (Inl f3, tr\<lparr>requests := requests tr @ [ps, ps, ps], delays := delays tr @ [1000, 2000]\<rparr>))"
proof (intro conjI impI)
  show "\<exists>k. 1 \<le> k \<and> k \<le> 3 \<and>
        requests (snd (callImageModelWithRetry ai ps tr)) = requests tr @ replicate k ps"
    by (rule call_trace)
next
  assume "ai (length (requests tr)) ps = Inl f1 \<and> isInternalError f1 \<and>
    ai (length (requests tr) + 1) ps = Inl f2 \<and> isInternalError f2 \<and>
    ai (length (requests tr) + 2) ps = Inl f3 \<and> isInternalError f3"
  then show "callImageModelWithRetry ai ps tr =
      (Inl f3, tr\<lparr>requests := requests tr @ [ps, ps, ps], delays := delays tr @ [1000, 2000]\<rparr>)"
    using call_three_failures[of ai tr ps f1 f2 f3] by blast
qed

theorem retry_bound_witness:
  "callImageModelWithRetry always_internal [textPart ''restyle''] empty_trace =
     (Inl internal_failure,
      \<lparr>requests = [ [textPart ''restyle''], [textPart ''restyle''], [textPart ''restyle''] ],
       delays = [1000, 2000]\<rparr>)"
  using retry_bound[where ai = always_internal and ps = "[textPart ''restyle'']"
      and tr = empty_trace and ?f1.0 = internal_failure and ?f2.0 = internal_failure
      and ?f3.0 = internal_failure]
    internal_failure_internal
  by (simp add: always_internal_def empty_trace_def)

text \<open>
  Claim C2. A failure is classified as transient exactly when its message, or its
  stringified form when it is no \<^verbatim>\<open>Error\<close>, contains \<^verbatim>\<open>"code":500\<close> or
  \<^verbatim>\<open>INTERNAL\<close>. When the first attempt fails with any other failure, the endpoint has been
  invoked exactly once, no delay is waited and that failure is the result; when it fails
  with a transient one, the endpoint is invoked again. A failure of the second attempt that
  is not transient is the result at once, with no delay after the first one.
\<close>

theorem transient_only_retry:
  "(isInternalError err \<longleftrightarrow>
      (\<exists>pre post. errorMessage err = pre @ ''\"code\":500'' @ post) \<or>
      (\<exists>pre post. errorMessage err = pre @ ''INTERNAL'' @ post)) \<and>
   (ai (length (requests tr)) ps = Inl err \<and> \<not> isInternalError err \<longrightarrow>
      callImageModelWithRetry ai ps tr = (Inl err, tr\<lparr>requests := requests tr @ [ps]\<rparr>)) \<and>
   (ai (length (requests tr)) ps = Inl err \<and> isInternalError err \<longrightarrow>
      (\<exists>k. 1 \<le> k \<and>
         requests (snd (callImageModelWithRetry ai ps tr)) = requests tr @ ps # replicate k ps)) \<and>
   (ai (length (requests tr)) ps = Inl err \<and> isInternalError err \<and>
    ai (length (requests tr) + 1) ps = Inl err' \<and> \<not> isInternalError err' \<longrightarrow>
      callImageModelWithRetry ai ps tr =
        (Inl err', tr\<lparr>requests := requests tr @ [ps, ps], delays := delays tr @ [1000]\<rparr>))"
proof (intro conjI impI)
  show "isInternalError err \<longleftrightarrow>
      (\<exists>pre post. errorMessage err = pre @ ''\"code\":500'' @ post) \<or>
      (\<exists>pre post. errorMessage err = pre @ ''INTERNAL'' @ post)"
    unfolding isInternalError_def by (simp only: str_includes_iff)
next
  assume "ai (length (requests tr)) ps = Inl err \<and> \<not> isInternalError err"
  then show "callImageModelWithRetry ai ps tr = (Inl err, tr\<lparr>requests := requests tr @ [ps]\<rparr>)"
    using call_not_internal[of ai tr ps err] by blast
next
  assume "ai (length (requests tr)) ps = Inl err \<and> isInternalError err"
  then show "\<exists>k. 1 \<le> k \<and>
         requests (snd (callImageModelWithRetry ai ps tr)) = requests tr @ ps # replicate k ps"
    using call_internal_again[of ai tr ps err] by blast
next
  assume "ai (length (requests tr)) ps = Inl err \<and> isInternalError err \<and>
    ai (length (requests tr) + 1) ps = Inl err' \<and> \<not> isInternalError err'"
  then show "callImageModelWithRetry ai ps tr =
        (Inl err', tr\<lparr>requests := requests tr @ [ps, ps], delays := delays tr @ [1000]\<rparr>)"
    using call_second_not_internal[of ai tr ps err err'] by blast
qed

theorem transient_only_retry_witness:
  "callImageModelWithRetry always_denied [textPart ''restyle''] empty_trace =
     (Inl (Error ''API key not valid. Please pass a valid API key.''),
      \<lparr>requests = [ [textPart ''restyle''] ], delays = []\<rparr>) \<and>
   callImageModelWithRetry internal_then_denied [textPart ''restyle''] empty_trace =
     (Inl (Error ''API key not valid. Please pass a valid API key.''),
      \<lparr>requests = [ [textPart ''restyle''], [textPart ''restyle''] ], delays = [1000]\<rparr>)"
proof -
  have n: "\<not> isInternalError (Error ''API key not valid. Please pass a valid API key.'')"
    by (simp add: isInternalError_def)
  have a: "callImageModelWithRetry always_denied [textPart ''restyle''] empty_trace =
     (Inl (Error ''API key not valid. Please pass a valid API key.''),
      \<lparr>requests = [ [textPart ''restyle''] ], delays = []\<rparr>)"
    using transient_only_retry[where ai = always_denied and ps = "[textPart ''restyle'']"
        and tr = empty_trace and err = "Error ''API key not valid. Please pass a valid API key.''"] n
    by (simp add: always_denied_def empty_trace_def)
  have b: "callImageModelWithRetry internal_then_denied [textPart ''restyle''] empty_trace =
     (Inl (Error ''API key not valid. Please pass a valid API key.''),
      \<lparr>requests = [ [textPart ''restyle''], [textPart ''restyle''] ], delays = [1000]\<rparr>)"
    using transient_only_retry[where ai = internal_then_denied and ps = "[textPart ''restyle'']"
        and tr = empty_trace and err = internal_failure
        and err' = "Error ''API key not valid. Please pass a valid API key.''"]
      n internal_failure_internal
    by (simp add: internal_then_denied_def empty_trace_def)
  from a b show ?thesis by (rule conjI)
qed


subsection \<open>Image codec\<close>

text \<open>
  Claim C3. Decoding the data URL that encoding makes of a media type and a payload gives
  back that media type and that payload, for every valid pair; and the valid pairs are the
  only ones for which it does.
\<close>

theorem codec_round_trip:
  "decode (encode mediaType payload) = Some (mediaType, payload) \<longleftrightarrow> valid_image mediaType payload"
  by (simp add: decode_Some_iff valid_image_iff)

theorem codec_round_trip_witness:
  "valid_image ''image/png'' ''iVBORw0KGgo='' \<and>
   decode (encode ''image/png'' ''iVBORw0KGgo='') = Some (''image/png'', ''iVBORw0KGgo='')"
proof -
  have v: "valid_image ''image/png'' ''iVBORw0KGgo=''"
    by (simp add: valid_image_def is_word_char_def is_line_terminator_def)
  from v codec_round_trip[THEN iffD2, OF v] show ?thesis by (rule conjI)
qed

text \<open>
  Claim C4. An input that does not match the pattern of a data URL with an image media
  type is not decoded, and an operation that receives it throws the format error and
  leaves the trace as it was: the endpoint is not invoked. The inputs
  \<^verbatim>\<open>not-a-data-url\<close> and \<^verbatim>\<open>data:text/plain;base64,abc\<close> are two such inputs.
\<close>

theorem format_rejection:
  "decode ''not-a-data-url'' = None \<and>
   decode ''data:text/plain;base64,abc'' = None \<and>
   ((\<forall>m d. \<not> matches_pattern u m d) \<longrightarrow>
      decode u = None \<and>
      (u \<in> set urls \<longrightarrow>
         generateStyledImage ai p urls add tr = (Inl (Error invalidFormatMessage), tr)))"
proof (intro conjI impI)
  show "decode ''not-a-data-url'' = None"
    by (simp add: decode_def)
  show "decode ''data:text/plain;base64,abc'' = None"
    by (simp add: decode_def)
next
  assume "\<forall>m d. \<not> matches_pattern u m d"
  then show "decode u = None" using decode_None_iff by blast
next
  assume "\<forall>m d. \<not> matches_pattern u m d" and u: "u \<in> set urls"
  then have "decode u = None" using decode_None_iff by blast
  with u have "decode_all urls = None" unfolding decode_all_None by blast
  moreover from u have "length urls \<noteq> 0" by auto
  ultimately show "generateStyledImage ai p urls add tr = (Inl (Error invalidFormatMessage), tr)"
    by (simp add: generateStyledImage_def)
qed

theorem format_rejection_witness:
  "generateStyledImage always_image ''restyle'' [sample_png, ''not-a-data-url''] None empty_trace =
     (Inl (Error invalidFormatMessage), empty_trace)"
proof -
  have "decode ''not-a-data-url'' = None"
    by (simp add: decode_def)
  then have "\<forall>m d. \<not> matches_pattern ''not-a-data-url'' m d"
    using decode_None_iff by blast
  with format_rejection[where u = "''not-a-data-url''" and urls = "[sample_png, ''not-a-data-url'']"
      and ai = always_image and p = "''restyle''" and add = None and tr = empty_trace]
  show ?thesis by simp
qed


subsection \<open>Response resolver\<close>

text \<open>
  Claim C5. The resolver succeeds exactly when the parts of the response's first candidate
  contain a part with inline data, and its result is then the data URL of the first such
  part, built from that part's media type and payload: the parts before it, which carry
  no inline data, and all parts after it play no role.
\<close>

theorem resolver_first_image:
  "processGeminiResponse r = Inr u \<longleftrightarrow>
     (\<exists>ps pre p post b. response_parts r = Some ps \<and> ps = pre @ p # post \<and>
        (\<forall>q \<in> set pre. inlineData q = None) \<and> inlineData p = Some b \<and>
        u = encode (tmpl (mimeType b)) (tmpl (data b)))"
  by (rule resolver_image)

theorem resolver_first_image_witness:
  "processGeminiResponse sample_response = Inr ''data:image/png;base64,AAAA''"
proof -
  have "\<exists>ps pre p post b. response_parts sample_response = Some ps \<and> ps = pre @ p # post \<and>
        (\<forall>q \<in> set pre. inlineData q = None) \<and> inlineData p = Some b \<and>
        ''data:image/png;base64,AAAA'' = encode (tmpl (mimeType b)) (tmpl (data b))"
    apply (rule exI[of _ "[textPart ''Here is your image.'', imagePart ''image/png'' ''AAAA'',
                           imagePart ''image/jpeg'' ''BBBB'']"])
    apply (rule exI[of _ "[textPart ''Here is your image.'']"])
    apply (rule exI[of _ "imagePart ''image/png'' ''AAAA''"])
    apply (rule exI[of _ "[imagePart ''image/jpeg'' ''BBBB'']"])
    apply (rule exI[of _ "\<lparr>mimeType = Some ''image/png'', data = Some ''AAAA''\<rparr>"])
    apply (simp add: sample_response_def response_parts_def textPart_def imagePart_def encode_def)
    done
  then show ?thesis by (rule resolver_first_image[THEN iffD2])
qed

text \<open>
  Claim C6. When no part of the response's first candidate carries inline data, the
  resolver throws an error whose message quotes the response's text as it is, or the
  placeholder \<^verbatim>\<open>No text response received.\<close> when the response has no text or an empty
  one.
\<close>

theorem resolver_text_failure:
  assumes "\<forall>ps. response_parts r = Some ps \<longrightarrow> (\<forall>q \<in> set ps. inlineData q = None)"
  shows "processGeminiResponse r =
     Inl (Error (''The AI model responded with text instead of an image: \"''
                 @ (case response_text r of
                      None \<Rightarrow> ''No text response received.''
                    | Some t \<Rightarrow> if t = [] then ''No text response received.'' else t)
                 @ ''\"''))"
  using resolver_no_image[OF assms] by (simp add: no_image_error_def text_or_placeholder_def)

theorem resolver_text_failure_witness:
  "processGeminiResponse text_only_response =
     Inl (Error ''The AI model responded with text instead of an image: \"I cannot do that.\"'')"
proof -
  have "\<forall>ps. response_parts text_only_response = Some ps \<longrightarrow> (\<forall>q \<in> set ps. inlineData q = None)"
    by (simp add: text_only_response_def response_parts_def textPart_def)
  from resolver_text_failure[OF this] show ?thesis
    by (simp add: text_only_response_def)
qed


subsection \<open>Prompt building\<close>

text \<open>
  Claim C7, as the specification states it, fails: a count outside the set is not
  rejected. With the count 5 and a well-formed image the prompt is built, with the layout
  rendered as \<^verbatim>\<open>undefined\<close>, the request is sent and the image of the response is
  returned.
\<close>

theorem photo_booth_count_not_rejected:
  "generatePhotoBoothImage always_image sample_png 5 empty_trace =
     (Inr ''data:image/png;base64,AAAA'',
      \<lparr>requests = [ [imagePart ''image/png'' ''iVBORw0KGgo='',
                     textPart (photoBoothPromptHead @ ''undefined'' @ photoBoothPromptTail)] ],
       delays = []\<rparr>)"
  by (simp add: generatePhotoBoothImage_def sample_png_decode gridLayout_def
        request_cycle_image[OF _ sample_response_image] always_image_def empty_trace_def)

text \<open>
  Claim C7, amended. The operation makes no check of the count at run time; the closed set
  is the static type of the parameter. Whatever the count, the only rejection before the
  network call is that of an image data URL that does not match, and for a matching one
  the request is sent, with the image part first and the prompt last. For the counts 4, 6,
  8, 9 and 12 the layout in the prompt is 2x2, 2x3, 2x4, 3x3 and 3x4.
\<close>

theorem photo_booth_layout:
  "(decode u = None \<longrightarrow>
      generatePhotoBoothImage ai u count tr = (Inl (Error invalidFormatMessage), tr)) \<and>
   (decode u = Some (m, d) \<longrightarrow>
      (\<exists>k t. 1 \<le> k \<and> k \<le> 3 \<and>
         requests (snd (generatePhotoBoothImage ai u count tr)) =
           requests tr @ replicate k [imagePart m d, textPart t] \<and>
         (count = 4 \<longrightarrow> t = photoBoothPromptHead @ ''2x2'' @ photoBoothPromptTail) \<and>
         (count = 6 \<longrightarrow> t = photoBoothPromptHead @ ''2x3'' @ photoBoothPromptTail) \<and>
         (count = 8 \<longrightarrow> t = photoBoothPromptHead @ ''2x4'' @ photoBoothPromptTail) \<and>
         (count = 9 \<longrightarrow> t = photoBoothPromptHead @ ''3x3'' @ photoBoothPromptTail) \<and>
         (count = 12 \<longrightarrow> t = photoBoothPromptHead @ ''3x4'' @ photoBoothPromptTail)))"
proof (intro conjI impI)
  assume "decode u = None"
  then show "generatePhotoBoothImage ai u count tr = (Inl (Error invalidFormatMessage), tr)"
    by (simp add: generatePhotoBoothImage_def)
next
  define t where "t = photoBoothPromptHead @ tmpl (gridLayout count) @ photoBoothPromptTail"
  assume "decode u = Some (m, d)"
  then have "generatePhotoBoothImage ai u count tr =
      request_cycle ai [imagePart m d, textPart t]
        ''The AI model failed to generate the photo booth image. Details: '' tr"
    by (simp add: generatePhotoBoothImage_def Let_def t_def)
  then obtain k where k: "1 \<le> k" "k \<le> 3"
    "requests (snd (generatePhotoBoothImage ai u count tr)) =
       requests tr @ replicate k [imagePart m d, textPart t]"
    using request_cycle_trace[of ai "[imagePart m d, textPart t]"
        "''The AI model failed to generate the photo booth image. Details: ''" tr]
    by auto
  have l: "(count = 4 \<longrightarrow> t = photoBoothPromptHead @ ''2x2'' @ photoBoothPromptTail) \<and>
         (count = 6 \<longrightarrow> t = photoBoothPromptHead @ ''2x3'' @ photoBoothPromptTail) \<and>
         (count = 8 \<longrightarrow> t = photoBoothPromptHead @ ''2x4'' @ photoBoothPromptTail) \<and>
         (count = 9 \<longrightarrow> t = photoBoothPromptHead @ ''3x3'' @ photoBoothPromptTail) \<and>
         (count = 12 \<longrightarrow> t = photoBoothPromptHead @ ''3x4'' @ photoBoothPromptTail)"
    by (simp add: t_def gridLayout_def)
  from k l show "\<exists>k t. 1 \<le> k \<and> k \<le> 3 \<and>
         requests (snd (generatePhotoBoothImage ai u count tr)) =
           requests tr @ replicate k [imagePart m d, textPart t] \<and>
         (count = 4 \<longrightarrow> t = photoBoothPromptHead @ ''2x2'' @ photoBoothPromptTail) \<and>
         (count = 6 \<longrightarrow> t = photoBoothPromptHead @ ''2x3'' @ photoBoothPromptTail) \<and>
         (count = 8 \<longrightarrow> t = photoBoothPromptHead @ ''2x4'' @ photoBoothPromptTail) \<and>
         (count = 9 \<longrightarrow> t = photoBoothPromptHead @ ''3x3'' @ photoBoothPromptTail) \<and>
         (count = 12 \<longrightarrow> t = photoBoothPromptHead @ ''3x4'' @ photoBoothPromptTail)"
    by blast
qed

theorem photo_booth_layout_witness:
  "\<exists>k. 1 \<le> k \<and> k \<le> 3 \<and>
      requests (snd (generatePhotoBoothImage always_image sample_png 9 empty_trace)) =
        replicate k
          [imagePart ''image/png'' ''iVBORw0KGgo='',
           textPart (photoBoothPromptHead @ ''3x3'' @ photoBoothPromptTail)]"
  using photo_booth_layout[where u = sample_png and m = "''image/png''" and d = "''iVBORw0KGgo=''"
      and ai = always_image and count = 9 and tr = empty_trace] sample_png_decode
  by (auto simp: empty_trace_def)

text \<open>
  Claim C8. For a receiving image A and a face-source image B that both decode, every
  request the face swap sends is the list of A's image part, then B's image part, then
  the instruction text; and the text is the template followed by the regeneration
  instructions exactly when the refinement string is given and is not empty after
  trimming, and the bare template otherwise.
\<close>

theorem face_swap_prompt_order:
  assumes "decode a = Some (ma, da)" and "decode b = Some (mb, db)"
  shows "\<exists>k. 1 \<le> k \<and> k \<le> 3 \<and>
     requests (snd (swapFacesInImage ai a b unused add tr)) =
       requests tr @ replicate k
         [imagePart ma da, imagePart mb db,
          textPart (case add of
                      None \<Rightarrow> faceSwapPromptText
                    | Some s \<Rightarrow>
                        if trim s \<noteq> [] then faceSwapPromptText @ regenerationHeader @ s
                        else faceSwapPromptText)]"
  using assms request_cycle_trace
  by (simp add: swapFacesInImage_def Let_def with_regeneration_trim)

theorem face_swap_prompt_order_witness:
  "(\<exists>k. 1 \<le> k \<and> k \<le> 3 \<and>
      requests (snd (swapFacesInImage always_image sample_png sample_jpeg (None :: unit option)
                       (Some '' softer light '') empty_trace)) =
        replicate k
          [imagePart ''image/png'' ''iVBORw0KGgo='', imagePart ''image/jpeg'' ''/9j/4AAQSkZJRg=='',
           textPart (faceSwapPromptText @ regenerationHeader @ '' softer light '')]) \<and>
   (\<exists>k. 1 \<le> k \<and> k \<le> 3 \<and>
      requests (snd (swapFacesInImage always_image sample_png sample_jpeg (None :: unit option)
                       (Some ''   '') empty_trace)) =
        replicate k
          [imagePart ''image/png'' ''iVBORw0KGgo='', imagePart ''image/jpeg'' ''/9j/4AAQSkZJRg=='',
           textPart faceSwapPromptText])"
proof -
  have t1: "trim '' softer light '' \<noteq> []"
    by (simp add: trim_def is_trim_space_def)
  have t2: "trim ''   '' = []"
    by (simp add: trim_def is_trim_space_def)
  show ?thesis
    using face_swap_prompt_order[OF sample_png_decode sample_jpeg_decode,
        where ai = always_image and unused = "None :: unit option"
          and add = "Some '' softer light ''" and tr = empty_trace]
      face_swap_prompt_order[OF sample_png_decode sample_jpeg_decode,
        where ai = always_image and unused = "None :: unit option"
          and add = "Some ''   ''" and tr = empty_trace]
      t1 t2
    by (simp add: empty_trace_def)
qed

text \<open>
  Claim C10. The face swap does not depend on its third argument: with the other
  arguments, the endpoint and the trace fixed, any two values of it, of any types, give
  the same result and the same trace, hence the same requests.
\<close>

theorem face_swap_ignores_unused:
  "swapFacesInImage ai a b (u1 :: 'x option) add tr = swapFacesInImage ai a b (u2 :: 'y option) add tr"
  by (simp add: swapFacesInImage_def)

theorem face_swap_ignores_unused_witness:
  "swapFacesInImage always_image sample_png sample_jpeg (Some True) None empty_trace =
   swapFacesInImage always_image sample_png sample_jpeg (None :: nat option) None empty_trace"
  by (rule face_swap_ignores_unused)


subsection \<open>Fan-out\<close>

text \<open>
  Claim C9. For a batch of items with distinct identifiers, under every schedule of the
  workers' steps: once all workers have returned, the status stored for each item is the
  one its own operation settled with, \<^verbatim>\<open>done\<close> with the result URL when the operation
  returned one, \<^verbatim>\<open>error\<close> with the message when it threw, whatever the other items'
  operations did. A schedule under which all workers return exists.
\<close>

theorem fan_out_isolation:
  assumes "distinct (map item_id promptsToUse)"
  shows "(\<forall>schedule. all_returned (run_batch generate img promptsToUse schedule) \<longrightarrow>
           (\<forall>p \<in> set promptsToUse.
              generatedImages (run_batch generate img promptsToUse schedule) (item_id p) =
                Some (case generate (prompt p) [img] of
                        Inr resultUrl \<Rightarrow>
                          \<lparr>image_id = item_id p, status = Done, url = Some resultUrl, error_text = None\<rparr>
                      | Inl err \<Rightarrow>
                          \<lparr>image_id = item_id p, status = Failed, url = None,
                           error_text = Some (case err of Error message \<Rightarrow> message
                                              | NonError _ \<Rightarrow> ''An unknown error occurred.'')\<rparr>)))
       \<and> (\<exists>schedule. all_returned (run_batch generate img promptsToUse schedule))"
proof -
  have s: "\<And>p. settled_status generate img p =
     (case generate (prompt p) [img] of
        Inr resultUrl \<Rightarrow>
          \<lparr>image_id = item_id p, status = Done, url = Some resultUrl, error_text = None\<rparr>
      | Inl err \<Rightarrow>
          \<lparr>image_id = item_id p, status = Failed, url = None,
           error_text = Some (case err of Error message \<Rightarrow> message
                              | NonError _ \<Rightarrow> ''An unknown error occurred.'')\<rparr>)"
    by (simp add: settled_status_def split: sum.splits thrown.splits)
  have inv: "\<And>schedule. pool_inv generate img promptsToUse (run_batch generate img promptsToUse schedule)"
    unfolding run_batch_def using assms pool_inv_start by (rule pool_inv_run)
  show ?thesis
  proof (intro conjI allI impI ballI)
    fix schedule p
    assume "all_returned (run_batch generate img promptsToUse schedule)"
      and "p \<in> set promptsToUse"
    with inv have "generatedImages (run_batch generate img promptsToUse schedule) (item_id p)
        = Some (settled_status generate img p)"
      by (rule pool_inv_final)
    then show "generatedImages (run_batch generate img promptsToUse schedule) (item_id p) =
                Some (case generate (prompt p) [img] of
                        Inr resultUrl \<Rightarrow>
                          \<lparr>image_id = item_id p, status = Done, url = Some resultUrl, error_text = None\<rparr>
                      | Inl err \<Rightarrow>
                          \<lparr>image_id = item_id p, status = Failed, url = None,
                           error_text = Some (case err of Error message \<Rightarrow> message
                                              | NonError _ \<Rightarrow> ''An unknown error occurred.'')\<rparr>)"
      by (simp only: s)
  next
    show "\<exists>schedule. all_returned (run_batch generate img promptsToUse schedule)"
      unfolding run_batch_def by (rule can_complete)
  qed
qed

theorem fan_out_isolation_witness:
  "all_returned (handleGenerate sample_generate sample_png sample_texts female sample_schedule) \<and>
   generatedImages (handleGenerate sample_generate sample_png sample_texts female sample_schedule)
       ''prompt3'' =
     Some \<lparr>image_id = ''prompt3'', status = Failed, url = None,
           error_text = Some ''The AI model failed to generate an image. Details: quota exceeded''\<rparr> \<and>
   generatedImages (handleGenerate sample_generate sample_png sample_texts female sample_schedule)
       ''prompt1'' =
     Some \<lparr>image_id = ''prompt1'', status = Done, url = Some ''data:image/png;base64,AAAA'',
           error_text = None\<rparr> \<and>
   generatedImages (handleGenerate sample_generate sample_png sample_texts female sample_schedule)
       ''prompt2'' =
     Some \<lparr>image_id = ''prompt2'', status = Done, url = Some ''data:image/png;base64,AAAA'',
           error_text = None\<rparr> \<and>
   generatedImages (handleGenerate sample_generate sample_png sample_texts female sample_schedule)
       ''prompt4'' =
     Some \<lparr>image_id = ''prompt4'', status = Done, url = Some ''data:image/png;base64,AAAA'',
           error_text = None\<rparr> \<and>
   generatedImages (handleGenerate sample_generate sample_png sample_texts female sample_schedule)
       ''prompt5'' =
     Some \<lparr>image_id = ''prompt5'', status = Done, url = Some ''data:image/png;base64,AAAA'',
           error_text = None\<rparr>"
proof -
  let ?jobs = "getPrompts sample_texts female"
  let ?final = "run_batch sample_generate sample_png ?jobs sample_schedule"
  have d: "distinct (map item_id ?jobs)"
    by (simp add: getPrompts_ids)
  have a: "all_returned ?final"
    using sample_run_returned by (simp add: handleGenerate_def)
  have h: "generatedImages ?final (item_id p) =
      Some (case sample_generate (prompt p) [sample_png] of
              Inr resultUrl \<Rightarrow>
                \<lparr>image_id = item_id p, status = Done, url = Some resultUrl, error_text = None\<rparr>
            | Inl err \<Rightarrow>
                \<lparr>image_id = item_id p, status = Failed, url = None,
                 error_text = Some (case err of Error message \<Rightarrow> message
                                    | NonError _ \<Rightarrow> ''An unknown error occurred.'')\<rparr>)"
    if "p \<in> set ?jobs" for p
    using fan_out_isolation[OF d, where generate = sample_generate and img = sample_png] a that
    by blast
  have j: "?jobs = [\<lparr>item_id = ''prompt1'', prompt = ''one''\<rparr>, \<lparr>item_id = ''prompt2'', prompt = ''two''\<rparr>,
                    \<lparr>item_id = ''prompt3'', prompt = ''three''\<rparr>, \<lparr>item_id = ''prompt4'', prompt = ''four''\<rparr>,
                    \<lparr>item_id = ''prompt5'', prompt = ''five''\<rparr>]"
    by (simp add: getPrompts_def basePrompts_def sample_texts_def)
  have h1: "generatedImages ?final ''prompt1'' =
      Some \<lparr>image_id = ''prompt1'', status = Done, url = Some ''data:image/png;base64,AAAA'', error_text = None\<rparr>"
    using h[of "\<lparr>item_id = ''prompt1'', prompt = ''one''\<rparr>"] by (simp add: j sample_generate_other)
  have h2: "generatedImages ?final ''prompt2'' =
      Some \<lparr>image_id = ''prompt2'', status = Done, url = Some ''data:image/png;base64,AAAA'', error_text = None\<rparr>"
    using h[of "\<lparr>item_id = ''prompt2'', prompt = ''two''\<rparr>"] by (simp add: j sample_generate_other)
  have h3: "generatedImages ?final ''prompt3'' =
      Some \<lparr>image_id = ''prompt3'', status = Failed, url = None,
            error_text = Some ''The AI model failed to generate an image. Details: quota exceeded''\<rparr>"
    using h[of "\<lparr>item_id = ''prompt3'', prompt = ''three''\<rparr>"] by (simp add: j sample_generate_three)
  have h4: "generatedImages ?final ''prompt4'' =
      Some \<lparr>image_id = ''prompt4'', status = Done, url = Some ''data:image/png;base64,AAAA'', error_text = None\<rparr>"
    using h[of "\<lparr>item_id = ''prompt4'', prompt = ''four''\<rparr>"] by (simp add: j sample_generate_other)
  have h5: "generatedImages ?final ''prompt5'' =
      Some \<lparr>image_id = ''prompt5'', status = Done, url = Some ''data:image/png;base64,AAAA'', error_text = None\<rparr>"
    using h[of "\<lparr>item_id = ''prompt5'', prompt = ''five''\<rparr>"] by (simp add: j sample_generate_other)
  show ?thesis
    unfolding handleGenerate_def using a h1 h2 h3 h4 h5 by simp
qed

end
